theory Spec2Isabelle
  imports Main
begin

section \<open>Strings and paths\<close>

text \<open>
  A Python \<open>str\<close> is a sequence of Unicode code points and \<open>len\<close> counts code
  points, so a string is a list of code points here. \<open>str_of\<close> writes an ASCII literal.
\<close>

type_synonym str = "nat list"

definition str_of :: "string \<Rightarrow> str" where
  "str_of s = map of_char s"

text \<open>Python truthiness of a value that is \<open>None\<close> or a string (\<open>if not x\<close>).\<close>

definition falsy :: "str option \<Rightarrow> bool" where
  "falsy x = (case x of None \<Rightarrow> True | Some s \<Rightarrow> s = [])"

text \<open>
  \<open>str.lower\<close>, as far as a comparison with a lower-case ASCII word can tell: the
  code points whose lower case is an ASCII letter are \<open>A\<close> to \<open>Z\<close> and the Kelvin
  sign U+212A.
\<close>

definition lower_cp :: "nat \<Rightarrow> nat" where
  "lower_cp c = (if 65 \<le> c \<and> c \<le> 90 then c + 32 else if c = 8490 then 107 else c)"

definition lower :: "str \<Rightarrow> str" where
  "lower s = map lower_cp s"

definition startswith :: "str \<Rightarrow> str \<Rightarrow> bool" where
  "startswith s p = (take (length p) s = p)"

definition endswith :: "str \<Rightarrow> str \<Rightarrow> bool" where
  "endswith s p = (length p \<le> length s \<and> drop (length s - length p) s = p)"

text \<open>The separator \<open>os.sep\<close> and the extension separator, on a POSIX system.\<close>

definition sep :: nat where
  "sep = 47"

definition extsep :: nat where
  "extsep = 46"

text \<open>\<open>os.path.join\<close> of two components (posixpath).\<close>

definition join :: "str \<Rightarrow> str \<Rightarrow> str" where
  "join a b =
     (if startswith b [sep] then b
      else if a = [] \<or> endswith a [sep] then a @ b
      else a @ [sep] @ b)"

text \<open>\<open>os.path.basename\<close>: what follows the last separator.\<close>

definition basename :: "str \<Rightarrow> str" where
  "basename p = rev (takeWhile (\<lambda>c. c \<noteq> sep) (rev p))"

text \<open>
  \<open>os.path.dirname\<close>: what precedes the last separator, with trailing separators
  stripped unless the head consists of separators only.
\<close>

definition dirname :: "str \<Rightarrow> str" where
  "dirname p =
     (let head = take (length p - length (basename p)) p
      in if head \<noteq> [] \<and> \<not> list_all (\<lambda>c. c = sep) head
         then rev (dropWhile (\<lambda>c. c = sep) (rev head))
         else head)"

text \<open>
  \<open>os.path.splitext\<close>: the extension starts at the last dot of the last component,
  unless only dots precede it there.
\<close>

definition splitext :: "str \<Rightarrow> str \<times> str" where
  "splitext p =
     (let b = basename p;
          d = take (length p - length b) p;
          e = rev (takeWhile (\<lambda>c. c \<noteq> extsep) (rev b));
          stem = take (length b - length e - 1) b
      in if extsep \<in> set b \<and> \<not> list_all (\<lambda>c. c = extsep) stem
         then (d @ stem, extsep # e)
         else (p, []))"

section \<open>Name sanitizer\<close>

text \<open>
  The reserved characters of both files:
  backslash, slash, colon, asterisk, question mark, double quote, less, greater, bar.
\<close>

definition invalid_chars :: "nat set" where
  "invalid_chars = {92, 47, 58, 42, 63, 34, 60, 62, 124}"

text \<open>\<open>if len(name) > 150: name = name[:150]\<close>\<close>

definition limit_length :: "str \<Rightarrow> str" where
  "limit_length s = (if length s > 150 then take 150 s else s)"

text \<open>
  The cleaning step that \<open>extract_title_name\<close> applies to a title string and
  \<open>get_video_name\<close> to a file's base name: drop the reserved characters, then cut to
  150 characters.
\<close>

definition clean_name :: "str \<Rightarrow> str" where
  "clean_name name = limit_length (filter (\<lambda>c. c \<notin> invalid_chars) name)"

text \<open>\<open>get_video_name\<close> of mp4Tomp3.py.\<close>

definition get_video_name :: "str \<Rightarrow> str" where
  "get_video_name video_path = clean_name (fst (splitext (basename video_path)))"

section \<open>Descriptor files\<close>

text \<open>
  What \<open>json.load\<close> returns. An object is the list of its items in the order of the
  dict, each key once.
\<close>

datatype json =
    JNull
  | JBool bool
  | JNum int
  | JStr str
  | JArr "json list"
  | JObj "(str \<times> json) list"

fun is_JStr :: "json \<Rightarrow> bool" where
  "is_JStr (JStr s) = True"
| "is_JStr v = False"

fun the_JStr :: "json \<Rightarrow> str" where
  "the_JStr (JStr s) = s"
| "the_JStr v = []"

text \<open>
  An item \<open>c\<close> of the iteration passes \<open>c not in invalid_chars\<close> unless it is a
  string of one reserved character.
\<close>

definition is_invalid_item :: "str \<Rightarrow> bool" where
  "is_invalid_item c = (case c of [x] \<Rightarrow> x \<in> invalid_chars | _ \<Rightarrow> False)"

text \<open>
  \<open>''.join(c for c in part_name if c not in invalid_chars)\<close> on whatever the title
  is. A string yields its characters, a list its items, a dict its keys; \<open>None\<close>, a
  boolean or a number is not iterable, and \<open>join\<close> accepts strings only (an item that
  is a list or a dict is not even hashable): each of these raises \<open>TypeError\<close>, which
  is \<open>None\<close> here.
\<close>

fun join_valid :: "json \<Rightarrow> str option" where
  "join_valid (JStr s) = Some (filter (\<lambda>c. c \<notin> invalid_chars) s)"
| "join_valid (JArr xs) =
     (if list_all is_JStr xs
      then Some (concat (filter (\<lambda>c. \<not> is_invalid_item c) (map the_JStr xs)))
      else None)"
| "join_valid (JObj kvs) =
     Some (concat (filter (\<lambda>c. \<not> is_invalid_item c) (map fst kvs)))"
| "join_valid v = None"

text \<open>
  \<open>extract_title_name\<close> of biliAudioToMp3\_.py, on the content of the descriptor:
  \<open>None\<close> when \<open>open\<close> or \<open>json.load\<close> raises. Every exception is caught and gives
  \<open>None\<close>; a value that is not a dict has no \<open>get\<close>. A dict without the key
  \<open>title\<close> gives the default \<open>untitled\<close>.
\<close>

definition extract_title_name :: "json option \<Rightarrow> str option" where
  "extract_title_name content =
     (case content of
        None \<Rightarrow> None
      | Some (JObj kvs) \<Rightarrow>
          (case join_valid (case map_of kvs (str_of ''title'') of
                              None \<Rightarrow> JStr (str_of ''untitled'')
                            | Some v \<Rightarrow> v) of
             None \<Rightarrow> None
           | Some part_name \<Rightarrow> Some (limit_length part_name))
      | Some v \<Rightarrow> None)"

section \<open>The input trees and discovery\<close>

text \<open>
  The content of a directory, as \<open>os.walk\<close> reads it: its entries in the order of
  the directory scan, each a file or a subdirectory with its own content.
\<close>

datatype entry = File str | Dir str "entry list"

fun ename :: "entry \<Rightarrow> str" where
  "ename (File n) = n"
| "ename (Dir n es) = n"

fun file_names :: "entry list \<Rightarrow> str list" where
  "file_names [] = []"
| "file_names (File n # es) = n # file_names es"
| "file_names (Dir n sub # es) = file_names es"

fun first_some :: "'a option list \<Rightarrow> 'a option" where
  "first_some [] = None"
| "first_some (None # xs) = first_some xs"
| "first_some (Some x # xs) = Some x"

text \<open>\<open>not d.startswith('.')\<close>: the subdirectories both walks of discovery keep.\<close>

fun visible_dir :: "entry \<Rightarrow> bool" where
  "visible_dir (File n) = False"
| "visible_dir (Dir d sub) = (\<not> startswith d (str_of ''.''))"

text \<open>
  \<open>find_entry_json_files\<close> of biliAudioToMp3\_.py: the walk is top-down, a directory
  before its subdirectories, and hidden subdirectories are pruned.
\<close>

fun walk_entry_json :: "str \<Rightarrow> entry list \<Rightarrow> str list" where
  "walk_entry_json root es =
     (if str_of ''entry.json'' \<in> set (file_names es)
      then [join root (str_of ''entry.json'')] else [])
     @ concat (map (\<lambda>e. case e of
                           Dir d sub \<Rightarrow> walk_entry_json (join root d) sub
                         | File n \<Rightarrow> [])
                 (filter visible_dir es))"

definition VIDEO_EXTENSIONS :: "str list" where
  "VIDEO_EXTENSIONS =
     [str_of ''.mp4'', str_of ''.mkv'', str_of ''.flv'', str_of ''.avi'',
      str_of ''.mov'', str_of ''.wmv'', str_of ''.m4s'']"

text \<open>\<open>find_video_files\<close> of mp4Tomp3.py.\<close>

fun walk_video :: "str \<Rightarrow> entry list \<Rightarrow> str list" where
  "walk_video root es =
     map (join root)
       (filter (\<lambda>file. lower (snd (splitext file)) \<in> set VIDEO_EXTENSIONS) (file_names es))
     @ concat (map (\<lambda>e. case e of
                           Dir d sub \<Rightarrow> walk_video (join root d) sub
                         | File n \<Rightarrow> [])
                 (filter visible_dir es))"

definition audio_extensions :: "str list" where
  "audio_extensions =
     [str_of ''.m4a'', str_of ''.mp4'', str_of ''.aac'', str_of ''.flv'', str_of ''.m4s'']"

definition common_audio_dirs :: "str set" where
  "common_audio_dirs = {str_of ''audio'', str_of ''sound'', str_of ''voice'', str_of ''music''}"

text \<open>
  \<open>dirs[:] = [d for d in dirs if d.lower() in common_audio_dirs or not d.startswith('.')]\<close>
\<close>

fun keep_dir :: "entry \<Rightarrow> bool" where
  "keep_dir (File n) = False"
| "keep_dir (Dir d sub) = (lower d \<in> common_audio_dirs \<or> \<not> startswith d (str_of ''.''))"

text \<open>
  The loop over the files of one directory in \<open>find_audio_file\<close>: the first file whose
  lower-cased name ends with an audio extension is returned, by the first
  \<open>return\<close> when its name starts with \<open>audio\<close> and by the second otherwise.
\<close>

fun scan_files :: "str \<Rightarrow> str list \<Rightarrow> str option" where
  "scan_files root [] = None"
| "scan_files root (file # files) =
     (let file_lower = lower file in
      if list_ex (\<lambda>ext. endswith file_lower ext) audio_extensions
      then (if startswith file_lower (str_of ''audio'')
            then Some (join root file)
            else Some (join root file))
      else scan_files root files)"

text \<open>
  The walk of \<open>find_audio_file\<close> below \<open>json_dir\<close>. A directory more than two
  separators deeper than \<open>json_dir\<close> is neither searched nor descended into.
\<close>

fun walk_audio :: "str \<Rightarrow> str \<Rightarrow> entry list \<Rightarrow> str option" where
  "walk_audio json_dir root es =
     (if int (count_list root sep) - int (count_list json_dir sep) > 2 then None
      else case scan_files root (file_names es) of
             Some found \<Rightarrow> Some found
           | None \<Rightarrow>
               first_some (map (\<lambda>e. case e of
                                       Dir d sub \<Rightarrow> walk_audio json_dir (join root d) sub
                                     | File n \<Rightarrow> None)
                             (filter keep_dir es)))"

section \<open>The environment and the state\<close>

datatype error = OSError | FileExistsError | ValueError | TypeError | RuntimeError

text \<open>
  What is at a path of the output side: nothing, something that is not a directory, or a
  directory with the sizes of the entries in it.
\<close>

datatype dnode = Absent | RegularFile | Directory "str \<Rightarrow> nat option"

text \<open>The two encoder command lines, by input and output path.\<close>

datatype ffmpeg_call = Transcode str str | StreamCopy str str

text \<open>
  What the program reads and calls but does not decide: the content of a descriptor
  (\<open>None\<close> when \<open>open\<close> or \<open>json.load\<close> raises), the content of an input directory,
  whether a directory can be created, what the encoder does to the output side (it
  raises, or exits with a status), whether a file can be removed, and
  \<open>psutil.cpu_count(logical=True)\<close>.
\<close>

record env =
  read_json :: "str \<Rightarrow> json option"
  tree :: "str \<Rightarrow> entry list"
  can_mkdir :: "str \<Rightarrow> bool"
  ffmpeg :: "ffmpeg_call \<Rightarrow> (str \<Rightarrow> dnode) \<Rightarrow> error + (int \<times> (str \<Rightarrow> dnode))"
  can_remove :: "str \<Rightarrow> str \<Rightarrow> bool"
  cpu_count :: "int option"

text \<open>
  What a run changes: the output side, the encoder invocations made, the arguments the
  progress callback was called with (it records the call and returns), and the temporary
  files whose removal failed and was printed.
\<close>

record state =
  fs :: "str \<Rightarrow> dnode"
  encoder_calls :: "ffmpeg_call list"
  events :: "bool option list"
  remove_failures :: "str list"

text \<open>
  \<open>if progress_callback: progress_callback(flag)\<close>. The callback is the progress
  window of the caller; a call of it is taken to return.
\<close>

definition emit :: "bool \<Rightarrow> bool option \<Rightarrow> state \<Rightarrow> state" where
  "emit progress_callback flag st =
     (if progress_callback then st\<lparr>events := events st @ [flag]\<rparr> else st)"

text \<open>\<open>os.makedirs(d, exist_ok=...)\<close>\<close>

definition makedirs :: "env \<Rightarrow> str \<Rightarrow> bool \<Rightarrow> state \<Rightarrow> error + state" where
  "makedirs E d exist_ok st =
     (case fs st d of
        Directory m \<Rightarrow> if exist_ok then Inr st else Inl FileExistsError
      | RegularFile \<Rightarrow> Inl FileExistsError
      | Absent \<Rightarrow>
          if can_mkdir E d
          then Inr (st\<lparr>fs := (fs st)(d := Directory (\<lambda>n. None))\<rparr>)
          else Inl OSError)"

text \<open>The size of the entry \<open>leaf\<close> of the directory \<open>d\<close>, when there is one.\<close>

definition entry_size :: "state \<Rightarrow> str \<Rightarrow> str \<Rightarrow> nat option" where
  "entry_size st d leaf = (case fs st d of Directory m \<Rightarrow> m leaf | _ \<Rightarrow> None)"

text \<open>\<open>os.path.exists(final_mp3) and os.path.getsize(final_mp3) > 0\<close>\<close>

definition exists_nonempty :: "state \<Rightarrow> str \<Rightarrow> str \<Rightarrow> bool" where
  "exists_nonempty st d leaf = (case entry_size st d leaf of None \<Rightarrow> False | Some n \<Rightarrow> n > 0)"

text \<open>\<open>subprocess.run(['ffmpeg', ...])\<close>: the invocation is recorded, also when it raises.\<close>

definition run_ffmpeg :: "env \<Rightarrow> ffmpeg_call \<Rightarrow> state \<Rightarrow> (error + int) \<times> state" where
  "run_ffmpeg E call st =
     (case ffmpeg E call (fs st) of
        Inl e \<Rightarrow> (Inl e, st\<lparr>encoder_calls := encoder_calls st @ [call]\<rparr>)
      | Inr (returncode, fs') \<Rightarrow>
          (Inr returncode, st\<lparr>fs := fs', encoder_calls := encoder_calls st @ [call]\<rparr>))"

text \<open>
  \<open>except Exception\<close> at the unit boundary: print, report failure to the callback,
  return \<open>False\<close>.
\<close>

definition except_fail :: "bool \<Rightarrow> (error + bool) \<times> state \<Rightarrow> (error + bool) \<times> state" where
  "except_fail progress_callback r =
     (case r of
        (Inl e, st) \<Rightarrow> (Inr False, emit progress_callback (Some False) st)
      | (Inr b, st) \<Rightarrow> (Inr b, st))"

section \<open>biliAudioToMp3\_.py: one unit\<close>

text \<open>
  The two \<open>lru_cache\<close> wrappers. The environment does not change during a run, so a
  cached result is the result.
\<close>

definition extract_title_name_cached :: "env \<Rightarrow> str \<Rightarrow> str option" where
  "extract_title_name_cached E json_path = extract_title_name (read_json E json_path)"

text \<open>
  \<open>find_audio_file\<close>: \<open>os.path.exists\<close> of \<open>audio.m4a\<close>, ... in \<open>json_dir\<close> asks
  for an entry of that name there; then the walk, which starts at \<open>json_dir\<close> itself.
\<close>

definition find_audio_file :: "env \<Rightarrow> str \<Rightarrow> str option" where
  "find_audio_file E json_dir =
     (case find (\<lambda>ext. str_of ''audio'' @ ext \<in> set (map ename (tree E json_dir)))
             audio_extensions of
        Some ext \<Rightarrow> Some (join json_dir (str_of ''audio'' @ ext))
      | None \<Rightarrow> walk_audio json_dir json_dir (tree E json_dir))"

definition find_audio_file_cached :: "env \<Rightarrow> str \<Rightarrow> str option" where
  "find_audio_file_cached E json_dir = find_audio_file E json_dir"

text \<open>The body of the \<open>try\<close> of \<open>process_single_file\<close>.\<close>

definition bili_try ::
  "env \<Rightarrow> str \<Rightarrow> str \<Rightarrow> bool \<Rightarrow> state \<Rightarrow> (error + bool) \<times> state" where
  "bili_try E json_path output_dir progress_callback st =
     (let part_name = extract_title_name_cached E json_path in
      if falsy part_name then (Inr False, emit progress_callback (Some False) st)
      else
        let json_dir = dirname json_path;
            audio_path = find_audio_file_cached E json_dir in
        if falsy audio_path then (Inr False, emit progress_callback (Some False) st)
        else
          (case makedirs E output_dir True st of
             Inl e \<Rightarrow> (Inl e, st)
           | Inr st1 \<Rightarrow>
               let leaf = the part_name @ str_of ''.mp3'';
                   final_mp3 = join output_dir leaf in
               if exists_nonempty st1 output_dir leaf
               then (Inr True, emit progress_callback (Some True) st1)
               else
                 (case run_ffmpeg E (Transcode (the audio_path) final_mp3) st1 of
                    (Inl e, st2) \<Rightarrow> (Inl e, st2)
                  | (Inr returncode, st2) \<Rightarrow>
                      if returncode = 0
                      then (Inr True, emit progress_callback (Some True) st2)
                      else (Inr False, emit progress_callback (Some False) st2))))"

definition bili_process_single_file ::
  "env \<Rightarrow> str \<Rightarrow> str \<Rightarrow> bool \<Rightarrow> state \<Rightarrow> (error + bool) \<times> state" where
  "bili_process_single_file E json_path output_dir progress_callback st =
     except_fail progress_callback (bili_try E json_path output_dir progress_callback st)"

section \<open>mp4Tomp3.py: one unit\<close>

text \<open>The body of the inner \<open>try\<close>: demux, then transcode.\<close>

definition mp4_inner_try ::
  "env \<Rightarrow> str \<Rightarrow> str \<Rightarrow> str \<Rightarrow> bool \<Rightarrow> state \<Rightarrow> (error + bool) \<times> state" where
  "mp4_inner_try E video_path temp_aac final_mp3 progress_callback st =
     (case run_ffmpeg E (StreamCopy video_path temp_aac) st of
        (Inl e, st1) \<Rightarrow> (Inl e, st1)
      | (Inr extract_returncode, st1) \<Rightarrow>
          if extract_returncode \<noteq> 0 then (Inl RuntimeError, st1)
          else
            (case run_ffmpeg E (Transcode temp_aac final_mp3) st1 of
               (Inl e, st2) \<Rightarrow> (Inl e, st2)
             | (Inr convert_returncode, st2) \<Rightarrow>
                 if convert_returncode \<noteq> 0 then (Inl RuntimeError, st2)
                 else (Inr True, emit progress_callback (Some True) st2)))"

text \<open>
  The \<open>finally\<close>: when the temporary file exists it is removed; when the removal raises,
  that is printed and nothing else happens.
\<close>

definition remove_temp :: "env \<Rightarrow> str \<Rightarrow> str \<Rightarrow> state \<Rightarrow> state" where
  "remove_temp E output_dir temp_aac st =
     (case fs st output_dir of
        Directory m \<Rightarrow>
          (if m (basename temp_aac) = None then st
           else if can_remove E output_dir (basename temp_aac)
           then st\<lparr>fs := (fs st)(output_dir := Directory (m(basename temp_aac := None)))\<rparr>
           else st\<lparr>remove_failures := remove_failures st @ [temp_aac]\<rparr>)
      | _ \<Rightarrow> st)"

definition mp4_try ::
  "env \<Rightarrow> str \<Rightarrow> str \<Rightarrow> bool \<Rightarrow> state \<Rightarrow> (error + bool) \<times> state" where
  "mp4_try E video_path output_dir progress_callback st =
     (let video_name = get_video_name video_path in
      if video_name = [] then (Inr False, emit progress_callback (Some False) st)
      else
        (case makedirs E output_dir True st of
           Inl e \<Rightarrow> (Inl e, st)
         | Inr st1 \<Rightarrow>
             let leaf = video_name @ str_of ''.mp3'';
                 final_mp3 = join output_dir leaf in
             if exists_nonempty st1 output_dir leaf
             then (Inr True, emit progress_callback (Some True) st1)
             else
               let temp_aac = fst (splitext final_mp3) @ str_of ''_temp.aac'' in
               (case except_fail progress_callback
                       (mp4_inner_try E video_path temp_aac final_mp3 progress_callback st1) of
                  (r, st2) \<Rightarrow> (r, remove_temp E output_dir temp_aac st2))))"

definition mp4_process_single_file ::
  "env \<Rightarrow> str \<Rightarrow> str \<Rightarrow> bool \<Rightarrow> state \<Rightarrow> (error + bool) \<times> state" where
  "mp4_process_single_file E video_path output_dir progress_callback st =
     except_fail progress_callback (mp4_try E video_path output_dir progress_callback st)"

section \<open>The batch scheduler\<close>

text \<open>
  The two counters the tasks share. They are updated under a lock, so the tasks are run
  here one at a time, in the order of the list: a theorem for every list of units holds
  for every order in which the pool completes them.
\<close>

record counters =
  success :: int
  processed :: int

definition count_result :: "bool \<Rightarrow> counters \<Rightarrow> counters" where
  "count_result result c =
     c\<lparr>processed := processed c + 1,
       success := (if result then success c + 1 else success c)\<rparr>"

definition bili_task_wrapper ::
  "env \<Rightarrow> str \<Rightarrow> bool \<Rightarrow> str \<Rightarrow> counters \<times> state \<Rightarrow> (error + bool) \<times> counters \<times> state" where
  "bili_task_wrapper E output_dir progress_callback json_path cs =
     (case bili_process_single_file E json_path output_dir progress_callback (snd cs) of
        (Inl e, st) \<Rightarrow> (Inl e, fst cs, st)
      | (Inr result, st) \<Rightarrow> (Inr result, count_result result (fst cs), st))"

text \<open>
  In mp4Tomp3.py the callback handed on is a lambda, which is always there and calls
  \<open>progress_callback\<close> when one was supplied; after counting, the wrapper calls
  \<open>progress_callback(None)\<close>.
\<close>

definition mp4_task_wrapper ::
  "env \<Rightarrow> str \<Rightarrow> bool \<Rightarrow> str \<Rightarrow> counters \<times> state \<Rightarrow> (error + bool) \<times> counters \<times> state" where
  "mp4_task_wrapper E output_dir progress_callback video_path cs =
     (case mp4_process_single_file E video_path output_dir progress_callback (snd cs) of
        (Inl e, st) \<Rightarrow> (Inl e, fst cs, st)
      | (Inr result, st) \<Rightarrow>
          (Inr result, count_result result (fst cs), emit progress_callback None st))"

text \<open>
  Every submitted task runs; the exceptions the tasks raised are what
  \<open>future.result()\<close> raises again, kept in the order of completion.
\<close>

fun run_tasks ::
  "(str \<Rightarrow> counters \<times> state \<Rightarrow> (error + bool) \<times> counters \<times> state) \<Rightarrow>
   str list \<Rightarrow> counters \<times> state \<Rightarrow> error list \<times> counters \<times> state" where
  "run_tasks task [] cs = ([], cs)"
| "run_tasks task (u # us) cs =
     (case task u cs of
        (r, cs1) \<Rightarrow>
          (case run_tasks task us cs1 of
             (raised, cs2) \<Rightarrow> ((case r of Inl e \<Rightarrow> [e] | Inr b \<Rightarrow> []) @ raised, cs2)))"

definition find_entry_json_files :: "env \<Rightarrow> str \<Rightarrow> str list" where
  "find_entry_json_files E root_dir = walk_entry_json root_dir (tree E root_dir)"

definition find_video_files :: "env \<Rightarrow> str \<Rightarrow> str list" where
  "find_video_files E root_dir = walk_video root_dir (tree E root_dir)"

text \<open>\<open>if not os.path.exists(output_dir): os.makedirs(output_dir)\<close>\<close>

definition ensure_output_dir :: "env \<Rightarrow> str \<Rightarrow> state \<Rightarrow> error + state" where
  "ensure_output_dir E output_dir st =
     (case fs st output_dir of
        Absent \<Rightarrow> makedirs E output_dir False st
      | _ \<Rightarrow> Inr st)"

text \<open>
  The pool size when \<open>max_workers\<close> is \<open>None\<close>, in each file. \<open>cpu_count\<close> may
  return \<open>None\<close>, and \<open>None - 1\<close> raises \<open>TypeError\<close>.
\<close>

definition bili_default_max_workers :: "int option \<Rightarrow> error + int" where
  "bili_default_max_workers logical_cores =
     (case logical_cores of None \<Rightarrow> Inl TypeError | Some n \<Rightarrow> Inr (n - 1))"

definition mp4_default_max_workers :: "int option \<Rightarrow> error + int" where
  "mp4_default_max_workers logical_cores =
     (case logical_cores of None \<Rightarrow> Inl TypeError | Some n \<Rightarrow> Inr (max 1 (n - 1)))"

text \<open>\<open>ThreadPoolExecutor(max_workers=n)\<close> raises \<open>ValueError\<close> unless \<open>n > 0\<close>.\<close>

definition ThreadPoolExecutor :: "int \<Rightarrow> error + int" where
  "ThreadPoolExecutor max_workers = (if max_workers \<le> 0 then Inl ValueError else Inr max_workers)"

text \<open>
  The pool of each file: \<open>max_workers\<close> as given, or the default of the file, handed
  to \<open>ThreadPoolExecutor\<close>.
\<close>

definition bili_pool :: "env \<Rightarrow> int option \<Rightarrow> error + int" where
  "bili_pool E max_workers =
     (case (case max_workers of
              None \<Rightarrow> bili_default_max_workers (cpu_count E)
            | Some n \<Rightarrow> Inr n) of
        Inl e \<Rightarrow> Inl e
      | Inr n \<Rightarrow> ThreadPoolExecutor n)"

definition mp4_pool :: "env \<Rightarrow> int option \<Rightarrow> error + int" where
  "mp4_pool E max_workers =
     (case (case max_workers of
              None \<Rightarrow> mp4_default_max_workers (cpu_count E)
            | Some n \<Rightarrow> Inr n) of
        Inl e \<Rightarrow> Inl e
      | Inr n \<Rightarrow> ThreadPoolExecutor n)"

definition bili_process_folders_parallel ::
  "env \<Rightarrow> str list \<Rightarrow> str \<Rightarrow> bool \<Rightarrow> int option \<Rightarrow> state \<Rightarrow> (error + int \<times> int) \<times> state" where
  "bili_process_folders_parallel E input_dirs output_dir progress_callback max_workers st =
     (case ensure_output_dir E output_dir st of
        Inl e \<Rightarrow> (Inl e, st)
      | Inr st1 \<Rightarrow>
          let all_json_files = concat (map (find_entry_json_files E) input_dirs);
              total = int (length all_json_files) in
          if total = 0 then (Inr (0, 0), st1)
          else
            (case bili_pool E max_workers of
               Inl e \<Rightarrow> (Inl e, st1)
             | Inr pool \<Rightarrow>
                 (case run_tasks (bili_task_wrapper E output_dir progress_callback)
                         all_json_files (\<lparr>success = 0, processed = 0\<rparr>, st1) of
                    (raised, c, st2) \<Rightarrow>
                      (case raised of
                         e # es \<Rightarrow> (Inl e, st2)
                       | [] \<Rightarrow> (Inr (total, success c), st2)))))"

text \<open>In mp4Tomp3.py an exception of \<open>future.result()\<close> is caught and printed.\<close>

definition mp4_process_folders_parallel ::
  "env \<Rightarrow> str list \<Rightarrow> str \<Rightarrow> bool \<Rightarrow> int option \<Rightarrow> state \<Rightarrow> (error + int \<times> int) \<times> state" where
  "mp4_process_folders_parallel E input_dirs output_dir progress_callback max_workers st =
     (case ensure_output_dir E output_dir st of
        Inl e \<Rightarrow> (Inl e, st)
      | Inr st1 \<Rightarrow>
          let all_video_files = concat (map (find_video_files E) input_dirs);
              total = int (length all_video_files) in
          if total = 0 then (Inr (0, 0), st1)
          else
            (case mp4_pool E max_workers of
               Inl e \<Rightarrow> (Inl e, st1)
             | Inr pool \<Rightarrow>
                 (case run_tasks (mp4_task_wrapper E output_dir progress_callback)
                         all_video_files (\<lparr>success = 0, processed = 0\<rparr>, st1) of
                    (raised, c, st2) \<Rightarrow> (Inr (total, success c), st2))))"

section \<open>The results of the units of a batch\<close>

text \<open>
  What \<open>process_single_file\<close> returns for each unit of a list, the units taken one
  after the other, each from the state the one before it left: the results the tally of
  \<open>process_folders_parallel\<close> is compared with. In mp4Tomp3.py the wrapper calls
  \<open>progress_callback(None)\<close> after each unit, which the next unit starts from.
\<close>

fun bili_results :: "env \<Rightarrow> str \<Rightarrow> bool \<Rightarrow> str list \<Rightarrow> state \<Rightarrow> bool list" where
  "bili_results E output_dir progress_callback [] st = []"
| "bili_results E output_dir progress_callback (u # us) st =
     (case bili_process_single_file E u output_dir progress_callback st of
        (Inl e, st') \<Rightarrow> bili_results E output_dir progress_callback us st'
      | (Inr result, st') \<Rightarrow> result # bili_results E output_dir progress_callback us st')"

fun mp4_results :: "env \<Rightarrow> str \<Rightarrow> bool \<Rightarrow> str list \<Rightarrow> state \<Rightarrow> bool list" where
  "mp4_results E output_dir progress_callback [] st = []"
| "mp4_results E output_dir progress_callback (u # us) st =
     (case mp4_process_single_file E u output_dir progress_callback st of
        (Inl e, st') \<Rightarrow> mp4_results E output_dir progress_callback us st'
      | (Inr result, st') \<Rightarrow>
          result # mp4_results E output_dir progress_callback us
                     (emit progress_callback None st'))"

text \<open>What a callback is called with, when one was supplied.\<close>

definition told :: "bool \<Rightarrow> bool option list \<Rightarrow> bool option list" where
  "told progress_callback flags = (if progress_callback then flags else [])"

section \<open>Notions used in the statements\<close>

text \<open>
  A call with a callback reported its own result: it returned \<open>True\<close> and the callback
  got \<open>True\<close> once, or it returned \<open>False\<close> and the callback got \<open>False\<close> once.
\<close>

definition reported :: "state \<Rightarrow> (error + bool) \<times> state \<Rightarrow> bool" where
  "reported st res =
     (fst res = Inr True \<and> events (snd res) = events st @ [Some True]
      \<or> fst res = Inr False \<and> events (snd res) = events st @ [Some False])"

text \<open>
  A unit whose destination is in place: its name is usable and
  \<open>output_dir/<name>.mp3\<close> exists with a size above zero; for a descriptor, its audio
  file is found as well.
\<close>

definition mp4_in_place :: "state \<Rightarrow> str \<Rightarrow> str \<Rightarrow> bool" where
  "mp4_in_place st output_dir video_path =
     (get_video_name video_path \<noteq> []
      \<and> exists_nonempty st output_dir (get_video_name video_path @ str_of ''.mp3''))"

definition bili_in_place :: "env \<Rightarrow> state \<Rightarrow> str \<Rightarrow> str \<Rightarrow> bool" where
  "bili_in_place E st output_dir json_path =
     (\<not> falsy (extract_title_name_cached E json_path)
      \<and> \<not> falsy (find_audio_file_cached E (dirname json_path))
      \<and> exists_nonempty st output_dir
            (the (extract_title_name_cached E json_path) @ str_of ''.mp3''))"


section \<open>Concrete runs\<close>

text \<open>
  Three encoders: one that exits with 0 and leaves a file of 1000 bytes at its output
  path, one that exits with 1, and one that cannot be started.
\<close>

fun output_of :: "ffmpeg_call \<Rightarrow> str" where
  "output_of (Transcode i out) = out"
| "output_of (StreamCopy i out) = out"

definition write_file :: "(str \<Rightarrow> dnode) \<Rightarrow> str \<Rightarrow> nat \<Rightarrow> (str \<Rightarrow> dnode)" where
  "write_file f p n =
     f(dirname p := Directory ((case f (dirname p) of Directory m \<Rightarrow> m | _ \<Rightarrow> (\<lambda>n. None))
                                 (basename p := Some n)))"

definition encoder_writes ::
  "ffmpeg_call \<Rightarrow> (str \<Rightarrow> dnode) \<Rightarrow> error + (int \<times> (str \<Rightarrow> dnode))" where
  "encoder_writes call f = Inr (0, write_file f (output_of call) 1000)"

definition encoder_fails ::
  "ffmpeg_call \<Rightarrow> (str \<Rightarrow> dnode) \<Rightarrow> error + (int \<times> (str \<Rightarrow> dnode))" where
  "encoder_fails call f = Inr (1, f)"

definition encoder_missing ::
  "ffmpeg_call \<Rightarrow> (str \<Rightarrow> dnode) \<Rightarrow> error + (int \<times> (str \<Rightarrow> dnode))" where
  "encoder_missing call f = Inl OSError"

text \<open>
  A machine where every descriptor has the given content and every input directory the
  given entries, with four logical cores.
\<close>

definition machine ::
  "json option \<Rightarrow> entry list \<Rightarrow>
   (ffmpeg_call \<Rightarrow> (str \<Rightarrow> dnode) \<Rightarrow> error + (int \<times> (str \<Rightarrow> dnode))) \<Rightarrow> env" where
  "machine content entries encoder =
     \<lparr>read_json = (\<lambda>p. content), tree = (\<lambda>d. entries), can_mkdir = (\<lambda>d. True),
      ffmpeg = encoder, can_remove = (\<lambda>d n. True), cpu_count = Some 4\<rparr>"

text \<open>An empty output side, and one where \<open>out\<close> holds one file of five bytes.\<close>

definition fresh :: state where
  "fresh = \<lparr>fs = (\<lambda>d. Absent), encoder_calls = [], events = [], remove_failures = []\<rparr>"

definition holding :: "str \<Rightarrow> state" where
  "holding leaf =
     \<lparr>fs = (\<lambda>d. if d = str_of ''out''
                 then Directory (\<lambda>n. if n = leaf then Some 5 else None) else Absent),
       encoder_calls = [], events = [], remove_failures = []\<rparr>"

text \<open>An encoder that demuxes and then fails to transcode.\<close>

fun encoder_demux_only ::
  "ffmpeg_call \<Rightarrow> (str \<Rightarrow> dnode) \<Rightarrow> error + (int \<times> (str \<Rightarrow> dnode))" where
  "encoder_demux_only (StreamCopy i out) f = Inr (0, write_file f out 1000)"
| "encoder_demux_only (Transcode i out) f = Inr (1, f)"

definition titled :: "string \<Rightarrow> json option" where
  "titled t = Some (JObj [(str_of ''title'', JStr (str_of t))])"

section \<open>Notions of a second run\<close>

text \<open>
  The entry \<open>leaf\<close> of the directory \<open>d\<close> exists with a size above zero, which is
  what the skip rule tests.
\<close>

definition present :: "(str \<Rightarrow> dnode) \<Rightarrow> str \<Rightarrow> str \<Rightarrow> bool" where
  "present f d leaf =
     (case f d of
        Directory m \<Rightarrow> (case m leaf of None \<Rightarrow> False | Some n \<Rightarrow> n > 0)
      | _ \<Rightarrow> False)"

fun is_directory :: "dnode \<Rightarrow> bool" where
  "is_directory (Directory m) = True"
| "is_directory d = False"

text \<open>
  An encoder under which a second run has nothing to do: every invocation exits with
  status 0, and where the output directory is a directory it stays one, keeps the files it
  holds with a size above zero, and holds the output file of the invocation with a size
  above zero afterwards.
\<close>

definition encoder_delivers :: "env \<Rightarrow> str \<Rightarrow> bool" where
  "encoder_delivers E output_dir =
     (\<forall>call f. \<exists>f'. ffmpeg E call f = Inr (0, f')
        \<and> (is_directory (f output_dir) \<longrightarrow>
             is_directory (f' output_dir)
           \<and> (\<forall>leaf. present f output_dir leaf \<longrightarrow> present f' output_dir leaf)
           \<and> (\<forall>leaf. output_of call = join output_dir leaf \<longrightarrow>
                 present f' output_dir leaf)))"

text \<open>
  A unit that gets as far as the destination test, and the name of its destination in
  the output directory: a descriptor with a usable name whose audio file is found, a video
  whose name is not empty.
\<close>

definition bili_ready :: "env \<Rightarrow> str \<Rightarrow> bool" where
  "bili_ready E json_path =
     (\<not> falsy (extract_title_name_cached E json_path)
      \<and> \<not> falsy (find_audio_file_cached E (dirname json_path)))"

definition bili_leaf :: "env \<Rightarrow> str \<Rightarrow> str" where
  "bili_leaf E json_path = the (extract_title_name_cached E json_path) @ str_of ''.mp3''"

definition mp4_ready :: "str \<Rightarrow> bool" where
  "mp4_ready video_path = (get_video_name video_path \<noteq> [])"

definition mp4_leaf :: "str \<Rightarrow> str" where
  "mp4_leaf video_path = get_video_name video_path @ str_of ''.mp3''"

text \<open>The \<open>.mp3\<close> files of \<open>d\<close> with a size above zero are kept from \<open>f\<close> to \<open>f'\<close>.\<close>

definition keeps :: "(str \<Rightarrow> dnode) \<Rightarrow> (str \<Rightarrow> dnode) \<Rightarrow> str \<Rightarrow> bool" where
  "keeps f f' d =
     (\<forall>leaf. endswith leaf (str_of ''.mp3'') \<longrightarrow> present f d leaf \<longrightarrow> present f' d leaf)"

section \<open>More concrete runs\<close>

text \<open>
  An input directory \<open>in\<close> with a descriptor titled \<open>a\<close> and its \<open>audio.m4a\<close>,
  the videos \<open>clip.mp4\<close> and \<open>?.mp4\<close> (whose name is empty once cleaned), and a
  subdirectory \<open>s\<close> whose descriptor cannot be read.
\<close>

definition library ::
  "(ffmpeg_call \<Rightarrow> (str \<Rightarrow> dnode) \<Rightarrow> error + (int \<times> (str \<Rightarrow> dnode))) \<Rightarrow> env" where
  "library encoder =
     (machine (titled ''a'')
        [File (str_of ''entry.json''), File (str_of ''audio.m4a''),
         File (str_of ''clip.mp4''), File (str_of ''?.mp4''),
         Dir (str_of ''s'') [File (str_of ''entry.json'')]]
        encoder)
     \<lparr>read_json := (\<lambda>p. if p = str_of ''in/s/entry.json'' then None else titled ''a'')\<rparr>"

text \<open>
  An encoder that exits with 0 and leaves 1000 bytes at its output path when that path is
  in \<open>output_dir\<close>.
\<close>

definition encoder_into ::
  "str \<Rightarrow> ffmpeg_call \<Rightarrow> (str \<Rightarrow> dnode) \<Rightarrow> error + (int \<times> (str \<Rightarrow> dnode))" where
  "encoder_into output_dir call f =
     Inr (0, f(output_dir := Directory (\<lambda>leaf.
            if join output_dir leaf = output_of call then Some 1000
            else (case f output_dir of Directory m \<Rightarrow> m leaf | _ \<Rightarrow> None))))"

section \<open>How one unit can end\<close>

lemma emit_fields [simp]:
  "fs (emit cb f st) = fs st" "encoder_calls (emit cb f st) = encoder_calls st"
  "remove_failures (emit cb f st) = remove_failures st"
  "events (emit True f st) = events st @ [f]"
  "emit False f st = st"
  by (simp_all add: emit_def)

lemma makedirs_fields:
  assumes "makedirs E d ok st = Inr st1"
  shows "events st1 = events st" "encoder_calls st1 = encoder_calls st"
    "remove_failures st1 = remove_failures st" "fs st1 d \<noteq> Absent"
    "d' \<noteq> d \<Longrightarrow> fs st1 d' = fs st d'"
  using assms by (auto simp: makedirs_def split: dnode.splits if_splits)

lemma makedirs_existing:
  "fs st d = Directory m \<Longrightarrow> makedirs E d True st = Inr st"
  by (simp add: makedirs_def)

lemma bili_cases [case_names no_name no_audio mkdir_raises skip encoder_raises encoder_exits]:
  fixes E json_path output_dir progress_callback st
  defines "part_name \<equiv> extract_title_name_cached E json_path"
      and "audio_path \<equiv> find_audio_file_cached E (dirname json_path)"
  defines "leaf \<equiv> the part_name @ str_of ''.mp3''"
  defines "call \<equiv> Transcode (the audio_path) (join output_dir leaf)"
  defines "res \<equiv> bili_process_single_file E json_path output_dir progress_callback st"
  obtains
    "falsy part_name" "res = (Inr False, emit progress_callback (Some False) st)"
  | "\<not> falsy part_name" "falsy audio_path"
    "res = (Inr False, emit progress_callback (Some False) st)"
  | e where "\<not> falsy part_name" "\<not> falsy audio_path"
    "makedirs E output_dir True st = Inl e"
    "res = (Inr False, emit progress_callback (Some False) st)"
  | st1 where "\<not> falsy part_name" "\<not> falsy audio_path"
    "makedirs E output_dir True st = Inr st1" "exists_nonempty st1 output_dir leaf"
    "res = (Inr True, emit progress_callback (Some True) st1)"
  | st1 e where "\<not> falsy part_name" "\<not> falsy audio_path"
    "makedirs E output_dir True st = Inr st1" "\<not> exists_nonempty st1 output_dir leaf"
    "ffmpeg E call (fs st1) = Inl e"
    "res = (Inr False, emit progress_callback (Some False)
              (st1\<lparr>encoder_calls := encoder_calls st1 @ [call]\<rparr>))"
  | st1 returncode fs' where "\<not> falsy part_name" "\<not> falsy audio_path"
    "makedirs E output_dir True st = Inr st1" "\<not> exists_nonempty st1 output_dir leaf"
    "ffmpeg E call (fs st1) = Inr (returncode, fs')"
    "res = (Inr (returncode = 0),
            emit progress_callback (Some (returncode = 0))
              (st1\<lparr>fs := fs', encoder_calls := encoder_calls st1 @ [call]\<rparr>))"
proof (cases "falsy part_name")
  case True
  then have "res = (Inr False, emit progress_callback (Some False) st)"
    by (simp add: res_def bili_process_single_file_def except_fail_def bili_try_def
        part_name_def)
  with True that(1) show ?thesis by blast
next
  case n: False
  show ?thesis
  proof (cases "falsy audio_path")
    case True
    with n have "res = (Inr False, emit progress_callback (Some False) st)"
      by (simp add: res_def bili_process_single_file_def except_fail_def bili_try_def
          part_name_def audio_path_def Let_def)
    with n True that(2) show ?thesis by blast
  next
    case a: False
    show ?thesis
    proof (cases "makedirs E output_dir True st")
      case (Inl e)
      with n a have "res = (Inr False, emit progress_callback (Some False) st)"
        by (simp add: res_def bili_process_single_file_def except_fail_def bili_try_def
            part_name_def audio_path_def Let_def)
      with n a Inl that(3) show ?thesis by blast
    next
      case (Inr st1)
      show ?thesis
      proof (cases "exists_nonempty st1 output_dir leaf")
        case True
        with n a Inr have "res = (Inr True, emit progress_callback (Some True) st1)"
          by (simp add: res_def bili_process_single_file_def except_fail_def bili_try_def
              part_name_def audio_path_def leaf_def Let_def)
        with n a Inr True that(4) show ?thesis by blast
      next
        case x: False
        show ?thesis
        proof (cases "ffmpeg E call (fs st1)")
          case (Inl e)
          with n a Inr x
          have "res = (Inr False, emit progress_callback (Some False)
                         (st1\<lparr>encoder_calls := encoder_calls st1 @ [call]\<rparr>))"
            by (simp add: res_def bili_process_single_file_def except_fail_def bili_try_def
                part_name_def audio_path_def leaf_def call_def run_ffmpeg_def Let_def)
          with n a Inr x Inl that(5) show ?thesis by blast
        next
          case (Inr v)
          obtain returncode fs' where v: "v = (returncode, fs')" by (cases v)
          with n a \<open>makedirs E output_dir True st = Inr st1\<close> x Inr
          have "res = (Inr (returncode = 0),
            emit progress_callback (Some (returncode = 0))
              (st1\<lparr>fs := fs', encoder_calls := encoder_calls st1 @ [call]\<rparr>))"
            by (simp add: res_def bili_process_single_file_def except_fail_def bili_try_def
                part_name_def audio_path_def leaf_def call_def run_ffmpeg_def Let_def)
          with n a \<open>makedirs E output_dir True st = Inr st1\<close> x Inr v that(6)
          show ?thesis by blast
        qed
      qed
    qed
  qed
qed

lemma mp4_inner_cases [case_names demux_raises demux_fails convert_raises convert_fails converted]:
  fixes E video_path temp_aac target progress_callback st
  defines "c1 \<equiv> StreamCopy video_path temp_aac"
      and "c2 \<equiv> Transcode temp_aac target"
  defines "res \<equiv> except_fail progress_callback
                    (mp4_inner_try E video_path temp_aac target progress_callback st)"
  obtains
    e where "ffmpeg E c1 (fs st) = Inl e"
      "res = (Inr False, emit progress_callback (Some False)
                (st\<lparr>encoder_calls := encoder_calls st @ [c1]\<rparr>))"
  | rc fs1 where "ffmpeg E c1 (fs st) = Inr (rc, fs1)" "rc \<noteq> 0"
      "res = (Inr False, emit progress_callback (Some False)
                (st\<lparr>fs := fs1, encoder_calls := encoder_calls st @ [c1]\<rparr>))"
  | fs1 e where "ffmpeg E c1 (fs st) = Inr (0, fs1)" "ffmpeg E c2 fs1 = Inl e"
      "res = (Inr False, emit progress_callback (Some False)
                (st\<lparr>fs := fs1, encoder_calls := encoder_calls st @ [c1, c2]\<rparr>))"
  | fs1 rc fs2 where "ffmpeg E c1 (fs st) = Inr (0, fs1)" "ffmpeg E c2 fs1 = Inr (rc, fs2)"
      "rc \<noteq> 0"
      "res = (Inr False, emit progress_callback (Some False)
                (st\<lparr>fs := fs2, encoder_calls := encoder_calls st @ [c1, c2]\<rparr>))"
  | fs1 fs2 where "ffmpeg E c1 (fs st) = Inr (0, fs1)" "ffmpeg E c2 fs1 = Inr (0, fs2)"
      "res = (Inr True, emit progress_callback (Some True)
                (st\<lparr>fs := fs2, encoder_calls := encoder_calls st @ [c1, c2]\<rparr>))"
proof (cases "ffmpeg E c1 (fs st)")
  case (Inl e)
  then have "res = (Inr False, emit progress_callback (Some False)
                (st\<lparr>encoder_calls := encoder_calls st @ [c1]\<rparr>))"
    by (simp add: res_def mp4_inner_try_def run_ffmpeg_def except_fail_def c1_def)
  with Inl that(1) show ?thesis by blast
next
  case (Inr v)
  obtain rc fs1 where v: "v = (rc, fs1)" by (cases v)
  show ?thesis
  proof (cases "rc = 0")
    case False
    with Inr v have "res = (Inr False, emit progress_callback (Some False)
                (st\<lparr>fs := fs1, encoder_calls := encoder_calls st @ [c1]\<rparr>))"
      by (simp add: res_def mp4_inner_try_def run_ffmpeg_def except_fail_def c1_def)
    with Inr v False that(2) show ?thesis by blast
  next
    case True
    with Inr v have x: "ffmpeg E c1 (fs st) = Inr (0, fs1)" by simp
    show ?thesis
    proof (cases "ffmpeg E c2 fs1")
      case (Inl e)
      with x have "res = (Inr False, emit progress_callback (Some False)
                (st\<lparr>fs := fs1, encoder_calls := encoder_calls st @ [c1, c2]\<rparr>))"
        by (simp add: res_def mp4_inner_try_def run_ffmpeg_def except_fail_def c1_def c2_def)
      with x Inl that(3) show ?thesis by blast
    next
      case r2: (Inr w)
      obtain rc2 fs2 where w: "w = (rc2, fs2)" by (cases w)
      show ?thesis
      proof (cases "rc2 = 0")
        case False
        with x r2 w have "res = (Inr False, emit progress_callback (Some False)
                (st\<lparr>fs := fs2, encoder_calls := encoder_calls st @ [c1, c2]\<rparr>))"
          by (simp add: res_def mp4_inner_try_def run_ffmpeg_def except_fail_def c1_def c2_def)
        with x r2 w False that(4) show ?thesis by blast
      next
        case True
        with x r2 w have "res = (Inr True, emit progress_callback (Some True)
                (st\<lparr>fs := fs2, encoder_calls := encoder_calls st @ [c1, c2]\<rparr>))"
          by (simp add: res_def mp4_inner_try_def run_ffmpeg_def except_fail_def c1_def c2_def)
        with x r2 w True that(5) show ?thesis by blast
      qed
    qed
  qed
qed

lemma mp4_cases [case_names no_name mkdir_raises skip demux]:
  fixes E video_path output_dir progress_callback st
  defines "video_name \<equiv> get_video_name video_path"
  defines "leaf \<equiv> video_name @ str_of ''.mp3''"
  defines "temp_aac \<equiv> fst (splitext (join output_dir leaf)) @ str_of ''_temp.aac''"
  defines "res \<equiv> mp4_process_single_file E video_path output_dir progress_callback st"
  obtains
    "video_name = []" "res = (Inr False, emit progress_callback (Some False) st)"
  | e where "video_name \<noteq> []" "makedirs E output_dir True st = Inl e"
      "res = (Inr False, emit progress_callback (Some False) st)"
  | st1 where "video_name \<noteq> []" "makedirs E output_dir True st = Inr st1"
      "exists_nonempty st1 output_dir leaf"
      "res = (Inr True, emit progress_callback (Some True) st1)"
  | st1 b st2 where "video_name \<noteq> []" "makedirs E output_dir True st = Inr st1"
      "\<not> exists_nonempty st1 output_dir leaf"
      "except_fail progress_callback
         (mp4_inner_try E video_path temp_aac (join output_dir leaf) progress_callback st1)
       = (Inr b, st2)"
      "res = (Inr b, remove_temp E output_dir temp_aac st2)"
proof (cases "video_name = []")
  case True
  then have "res = (Inr False, emit progress_callback (Some False) st)"
    by (simp add: res_def mp4_process_single_file_def except_fail_def mp4_try_def
        video_name_def)
  with True that(1) show ?thesis by blast
next
  case n: False
  show ?thesis
  proof (cases "makedirs E output_dir True st")
    case (Inl e)
    with n have "res = (Inr False, emit progress_callback (Some False) st)"
      by (simp add: res_def mp4_process_single_file_def except_fail_def mp4_try_def
          video_name_def Let_def)
    with n Inl that(2) show ?thesis by blast
  next
    case (Inr st1)
    show ?thesis
    proof (cases "exists_nonempty st1 output_dir leaf")
      case True
      with n Inr have "res = (Inr True, emit progress_callback (Some True) st1)"
        by (simp add: res_def mp4_process_single_file_def except_fail_def mp4_try_def
            video_name_def leaf_def Let_def)
      with n Inr True that(3) show ?thesis by blast
    next
      case x: False
      obtain b st2 where i: "except_fail progress_callback
         (mp4_inner_try E video_path temp_aac (join output_dir leaf) progress_callback st1)
       = (Inr b, st2)"
        by (cases rule: mp4_inner_cases
            [where E = E and video_path = video_path and temp_aac = temp_aac
               and target = "join output_dir leaf" and progress_callback = progress_callback
               and st = st1]) blast+
      with n Inr x have "res = (Inr b, remove_temp E output_dir temp_aac st2)"
        by (simp add: res_def mp4_process_single_file_def except_fail_def mp4_try_def
            video_name_def leaf_def temp_aac_def Let_def)
      with n Inr x i that(4) show ?thesis by blast
    qed
  qed
qed

lemma remove_temp_fields [simp]:
  "events (remove_temp E d t st) = events st"
  "encoder_calls (remove_temp E d t st) = encoder_calls st"
  by (simp_all add: remove_temp_def split: dnode.splits)

lemma reportedI:
  "res = (Inr b, st') \<Longrightarrow> events st' = events st @ [Some b] \<Longrightarrow> reported st res"
  by (cases b) (simp_all add: reported_def)

lemma bili_reported: "reported st (bili_process_single_file E p out True st)"
proof (cases rule: bili_cases
    [where E = E and json_path = p and output_dir = out and progress_callback = True and st = st])
  case no_name
  from no_name(2) show ?thesis by (rule reportedI) simp
next
  case no_audio
  from no_audio(3) show ?thesis by (rule reportedI) simp
next
  case (mkdir_raises e)
  from mkdir_raises(4) show ?thesis by (rule reportedI) simp
next
  case (skip st1)
  from skip(5) show ?thesis by (rule reportedI) (simp add: makedirs_fields(1) [OF skip(3)])
next
  case (encoder_raises st1 e)
  from encoder_raises(6) show ?thesis
    by (rule reportedI) (simp add: makedirs_fields(1) [OF encoder_raises(3)])
next
  case (encoder_exits st1 returncode fs')
  from encoder_exits(6) show ?thesis
    by (rule reportedI) (simp add: makedirs_fields(1) [OF encoder_exits(3)])
qed

lemma mp4_inner_reported:
  "reported st (except_fail True (mp4_inner_try E v t f True st))"
proof (cases rule: mp4_inner_cases
      [where E = E and video_path = v and temp_aac = t and target = f
         and progress_callback = True and st = st])
  case (demux_raises e)
  from demux_raises(2) show ?thesis by (rule reportedI) simp
next
  case (demux_fails rc fs1)
  from demux_fails(3) show ?thesis by (rule reportedI) simp
next
  case (convert_raises fs1 e)
  from convert_raises(3) show ?thesis by (rule reportedI) simp
next
  case (convert_fails fs1 rc fs2)
  from convert_fails(4) show ?thesis by (rule reportedI) simp
next
  case (converted fs1 fs2)
  from converted(3) show ?thesis by (rule reportedI) simp
qed

lemma mp4_reported: "reported st (mp4_process_single_file E v out True st)"
proof (cases rule: mp4_cases
    [where E = E and video_path = v and output_dir = out and progress_callback = True and st = st])
  case no_name
  from no_name(2) show ?thesis by (rule reportedI) simp
next
  case (mkdir_raises e)
  from mkdir_raises(3) show ?thesis by (rule reportedI) simp
next
  case (skip st1)
  from skip(4) show ?thesis by (rule reportedI) (simp add: makedirs_fields(1) [OF skip(2)])
next
  case (demux st1 b st2)
  have "reported st1 (Inr b, st2)"
    using mp4_inner_reported [of st1 E v _ _] demux(4) by metis
  then have ev: "events st2 = events st1 @ [Some b]"
    by (auto simp: reported_def)
  from demux(5) show ?thesis
    by (rule reportedI) (simp add: ev makedirs_fields(1) [OF demux(2)])
qed

lemma except_fail_returns:
  "fst (except_fail cb r) = Inr True \<or> fst (except_fail cb r) = Inr False"
proof (cases r)
  case (Pair x s)
  then show ?thesis by (cases x) (auto simp: except_fail_def)
qed

lemma bili_returns:
  "fst (bili_process_single_file E p out cb st) = Inr True
   \<or> fst (bili_process_single_file E p out cb st) = Inr False"
  unfolding bili_process_single_file_def by (rule except_fail_returns)


lemma bili_task_counts:
  "\<exists>b st'. bili_task_wrapper E out cb u (c, st) = (Inr b, count_result b c, st')"
proof -
  obtain b where "fst (bili_process_single_file E u out cb st) = Inr b"
    using bili_returns by blast
  then show ?thesis
    by (cases "bili_process_single_file E u out cb st") (simp add: bili_task_wrapper_def)
qed

lemma run_tasks_tally:
  assumes task: "\<And>u c st. \<exists>b st'. task u (c, st) = (Inr b, count_result b c, st')"
  shows "run_tasks task us (c, st) = (raised, c', st') \<Longrightarrow>
         raised = [] \<and> processed c' = processed c + int (length us)
         \<and> success c \<le> success c' \<and> success c' \<le> success c + int (length us)"
proof (induction us arbitrary: c st raised c' st')
  case Nil
  then show ?case by simp
next
  case (Cons u us)
  obtain b st1 where t: "task u (c, st) = (Inr b, count_result b c, st1)"
    using task by blast
  obtain raised2 c2 st2 where r: "run_tasks task us (count_result b c, st1) = (raised2, c2, st2)"
    by (cases "run_tasks task us (count_result b c, st1)") auto
  from Cons.prems t r have eq: "raised = raised2" "c' = c2" by simp_all
  from Cons.IH [OF r] eq show ?case by (auto simp: count_result_def split: if_splits)
qed

section \<open>Units whose destination is in place\<close>

lemma exists_nonempty_dir:
  "exists_nonempty st d leaf \<Longrightarrow> \<exists>m. fs st d = Directory m"
  by (cases "fs st d") (simp_all add: exists_nonempty_def entry_size_def)

lemma makedirs_in_place:
  "exists_nonempty st d leaf \<Longrightarrow> makedirs E d True st = Inr st"
  using exists_nonempty_dir makedirs_existing by blast

lemma mp4_skip:
  assumes "mp4_in_place st out v"
  shows "mp4_process_single_file E v out cb st = (Inr True, emit cb (Some True) st)"
proof -
  from assms have n: "get_video_name v \<noteq> []"
    and x: "exists_nonempty st out (get_video_name v @ str_of ''.mp3'')"
    by (simp_all add: mp4_in_place_def)
  from x have m: "makedirs E out True st = Inr st" by (rule makedirs_in_place)
  from n m x show ?thesis
    by (simp add: mp4_process_single_file_def mp4_try_def except_fail_def Let_def)
qed

lemma bili_skip:
  assumes "bili_in_place E st out p"
  shows "bili_process_single_file E p out cb st = (Inr True, emit cb (Some True) st)"
proof -
  from assms have n: "\<not> falsy (extract_title_name_cached E p)"
    and a: "\<not> falsy (find_audio_file_cached E (dirname p))"
    and x: "exists_nonempty st out (the (extract_title_name_cached E p) @ str_of ''.mp3'')"
    by (simp_all add: bili_in_place_def)
  from x have m: "makedirs E out True st = Inr st" by (rule makedirs_in_place)
  from n a m x show ?thesis
    by (simp add: bili_process_single_file_def bili_try_def except_fail_def Let_def)
qed

lemma ensure_output_dir_kept:
  "fs st d \<noteq> Absent \<Longrightarrow> ensure_output_dir E d st = Inr st"
  by (cases "fs st d") (simp_all add: ensure_output_dir_def)

lemma ensure_output_dir_fields:
  assumes "ensure_output_dir E d st = Inr st1"
  shows "events st1 = events st" "encoder_calls st1 = encoder_calls st"
    "remove_failures st1 = remove_failures st" "fs st1 d \<noteq> Absent"
    "d' \<noteq> d \<Longrightarrow> fs st1 d' = fs st d'"
proof -
  consider "fs st d \<noteq> Absent" "st1 = st" | "makedirs E d False st = Inr st1"
    using assms by (cases "fs st d") (simp_all add: ensure_output_dir_def)
  then show "events st1 = events st" "encoder_calls st1 = encoder_calls st"
    "remove_failures st1 = remove_failures st" "fs st1 d \<noteq> Absent"
    "d' \<noteq> d \<Longrightarrow> fs st1 d' = fs st d'"
    by (cases; simp add: makedirs_fields)+
qed

section \<open>The tally of a batch\<close>

lemma bili_pfp_returns:
  assumes e: "ensure_output_dir E out st = Inr st1" and p: "bili_pool E mw = Inr n"
  shows "\<exists>succ st'. bili_process_folders_parallel E dirs out cb mw st
           = (Inr (int (length (concat (map (find_entry_json_files E) dirs))), succ), st')"
proof -
  let ?us = "concat (map (find_entry_json_files E) dirs)"
  obtain raised c st2 where r: "run_tasks (bili_task_wrapper E out cb) ?us
        (\<lparr>success = 0, processed = 0\<rparr>, st1) = (raised, c, st2)"
    by (cases "run_tasks (bili_task_wrapper E out cb) ?us
        (\<lparr>success = 0, processed = 0\<rparr>, st1)") auto
  from run_tasks_tally [OF bili_task_counts r] have t: "raised = []" by simp
  show ?thesis
  proof (cases "?us = []")
    case True
    with e show ?thesis by (simp add: bili_process_folders_parallel_def del: concat_eq_Nil_conv)
  next
    case False
    with e p r t show ?thesis by (simp add: bili_process_folders_parallel_def Let_def del: concat_eq_Nil_conv)
  qed
qed

lemma mp4_pfp_returns:
  assumes e: "ensure_output_dir E out st = Inr st1" and p: "mp4_pool E mw = Inr n"
  shows "\<exists>succ st'. mp4_process_folders_parallel E dirs out cb mw st
           = (Inr (int (length (concat (map (find_video_files E) dirs))), succ), st')"
proof -
  let ?us = "concat (map (find_video_files E) dirs)"
  obtain raised c st2 where r: "run_tasks (mp4_task_wrapper E out cb) ?us
        (\<lparr>success = 0, processed = 0\<rparr>, st1) = (raised, c, st2)"
    by (cases "run_tasks (mp4_task_wrapper E out cb) ?us
        (\<lparr>success = 0, processed = 0\<rparr>, st1)") auto
  show ?thesis
  proof (cases "?us = []")
    case True
    with e show ?thesis by (simp add: mp4_process_folders_parallel_def del: concat_eq_Nil_conv)
  next
    case False
    with e p r show ?thesis by (simp add: mp4_process_folders_parallel_def Let_def del: concat_eq_Nil_conv)
  qed
qed

lemma pfp_no_units:
  assumes e: "ensure_output_dir E out st = Inr st1"
  shows "concat (map (find_entry_json_files E) dirs) = [] \<Longrightarrow>
           bili_process_folders_parallel E dirs out cb mw st = (Inr (0, 0), st1)"
    and "concat (map (find_video_files E) dirs) = [] \<Longrightarrow>
           mp4_process_folders_parallel E dirs out cb mw st = (Inr (0, 0), st1)"
  using e by (simp_all add: bili_process_folders_parallel_def mp4_process_folders_parallel_def del: concat_eq_Nil_conv)

section \<open>Failures of one unit\<close>

lemma bili_fails_early:
  "falsy (extract_title_name_cached E p) \<or> falsy (find_audio_file_cached E (dirname p))
     \<or> (\<exists>e. makedirs E out True st = Inl e) \<Longrightarrow>
   bili_process_single_file E p out cb st = (Inr False, emit cb (Some False) st)"
  by (cases rule: bili_cases
      [where E = E and json_path = p and output_dir = out and progress_callback = cb and st = st])
    auto

lemma mp4_fails_early:
  "(\<exists>e. makedirs E out True st = Inl e) \<Longrightarrow>
   mp4_process_single_file E v out cb st = (Inr False, emit cb (Some False) st)"
  by (cases rule: mp4_cases
      [where E = E and video_path = v and output_dir = out and progress_callback = cb and st = st])
    auto



section \<open>What a task reports\<close>

lemma bili_task_reported:
  "fst (bili_task_wrapper E out True u (c, st)) = Inr True
     \<and> events (snd (snd (bili_task_wrapper E out True u (c, st)))) = events st @ [Some True]
   \<or> fst (bili_task_wrapper E out True u (c, st)) = Inr False
     \<and> events (snd (snd (bili_task_wrapper E out True u (c, st)))) = events st @ [Some False]"
proof -
  obtain r st' where p: "bili_process_single_file E u out True st = (r, st')"
    by (cases "bili_process_single_file E u out True st") auto
  from bili_reported [of st E u out] p
  have "r = Inr True \<and> events st' = events st @ [Some True]
      \<or> r = Inr False \<and> events st' = events st @ [Some False]"
    by (simp add: reported_def)
  with p show ?thesis by (auto simp: bili_task_wrapper_def)
qed

lemma mp4_task_reported:
  "fst (mp4_task_wrapper E out True u (c, st)) = Inr True
     \<and> events (snd (snd (mp4_task_wrapper E out True u (c, st))))
         = events st @ [Some True, None]
   \<or> fst (mp4_task_wrapper E out True u (c, st)) = Inr False
     \<and> events (snd (snd (mp4_task_wrapper E out True u (c, st))))
         = events st @ [Some False, None]"
proof -
  obtain r st' where p: "mp4_process_single_file E u out True st = (r, st')"
    by (cases "mp4_process_single_file E u out True st") auto
  from mp4_reported [of st E u out] p
  have "r = Inr True \<and> events st' = events st @ [Some True]
      \<or> r = Inr False \<and> events st' = events st @ [Some False]"
    by (simp add: reported_def)
  with p show ?thesis by (auto simp: mp4_task_wrapper_def)
qed

section \<open>Descriptors, audio lookup and pool size\<close>

lemma scan_files_first:
  "list_ex (\<lambda>ext. endswith (lower file) ext) audio_extensions \<Longrightarrow>
     scan_files root (file # files) = Some (join root file)"
  by (simp add: Let_def)

lemma mp4_default_max_workers_positive:
  "mp4_default_max_workers (Some n) = Inr (max 1 (n - 1)) \<and> 1 \<le> max 1 (n - 1)"
  by (simp add: mp4_default_max_workers_def)




section \<open>The temporary file\<close>

lemma remove_temp_removes:
  "can_remove E d (basename t) \<Longrightarrow> entry_size (remove_temp E d t st) d (basename t) = None"
  by (cases "fs st d") (simp_all add: remove_temp_def entry_size_def)

lemma remove_temp_logs:
  "entry_size (remove_temp E d t st) d (basename t) \<noteq> None \<Longrightarrow>
     t \<in> set (remove_failures (remove_temp E d t st))"
  by (cases "fs st d") (auto simp: remove_temp_def entry_size_def split: if_splits)

lemma except_fail_twice:
  "fst (except_fail cb (fst (except_fail cb x), s)) = fst (except_fail cb x)"
proof (cases x)
  case (Pair r s')
  then show ?thesis by (cases r) (simp_all add: except_fail_def)
qed

lemma mp4_result_without_remove:
  "fst (mp4_process_single_file (E\<lparr>can_remove := r\<rparr>) v out cb st)
   = fst (mp4_process_single_file E v out cb st)"
proof -
  have cm: "can_mkdir (E\<lparr>can_remove := r\<rparr>) = can_mkdir E"
    and ff: "ffmpeg (E\<lparr>can_remove := r\<rparr>) = ffmpeg E"
    by simp_all
  have d: "makedirs (E\<lparr>can_remove := r\<rparr>) = makedirs E"
    unfolding makedirs_def cm ..
  have f: "run_ffmpeg (E\<lparr>can_remove := r\<rparr>) = run_ffmpeg E"
    unfolding run_ffmpeg_def ff ..
  have i: "mp4_inner_try (E\<lparr>can_remove := r\<rparr>) = mp4_inner_try E"
    unfolding mp4_inner_try_def f ..
  show ?thesis
  proof (cases "get_video_name v = []")
    case True
    then show ?thesis by (simp add: mp4_process_single_file_def mp4_try_def)
  next
    case n: False
    show ?thesis
    proof (cases "makedirs E out True st")
      case (Inl e)
      with n show ?thesis by (simp add: mp4_process_single_file_def mp4_try_def d Let_def)
    next
      case (Inr st1)
      show ?thesis
      proof (cases "exists_nonempty st1 out (get_video_name v @ str_of ''.mp3'')")
        case True
        with n Inr show ?thesis
          by (simp add: mp4_process_single_file_def mp4_try_def d Let_def)
      next
        case False
        with n Inr show ?thesis
          by (simp add: mp4_process_single_file_def mp4_try_def d i Let_def
              case_prod_beta except_fail_twice)
      qed
    qed
  qed
qed

section \<open>The results of a batch\<close>

lemma events_emit: "events (emit cb f st) = events st @ told cb [f]"
  by (simp add: emit_def told_def)

lemma outcomeI:
  "r = (Inr b, st') \<Longrightarrow> events st' = events st @ told cb [Some b] \<Longrightarrow>
     \<exists>b st'. r = (Inr b, st') \<and> events st' = events st @ told cb [Some b]"
  by blast

lemma bili_outcome:
  "\<exists>b st'. bili_process_single_file E p out cb st = (Inr b, st')
     \<and> events st' = events st @ told cb [Some b]"
proof (cases rule: bili_cases
    [where E = E and json_path = p and output_dir = out and progress_callback = cb and st = st])
  case no_name
  from no_name(2) show ?thesis by (rule outcomeI) (simp add: events_emit)
next
  case no_audio
  from no_audio(3) show ?thesis by (rule outcomeI) (simp add: events_emit)
next
  case (mkdir_raises e)
  from mkdir_raises(4) show ?thesis by (rule outcomeI) (simp add: events_emit)
next
  case (skip st1)
  from skip(5) show ?thesis by (rule outcomeI) (simp add: events_emit makedirs_fields(1) [OF skip(3)])
next
  case (encoder_raises st1 e)
  from encoder_raises(6) show ?thesis by (rule outcomeI) (simp add: events_emit makedirs_fields(1) [OF encoder_raises(3)])
next
  case (encoder_exits st1 returncode fs')
  from encoder_exits(6) show ?thesis by (rule outcomeI) (simp add: events_emit makedirs_fields(1) [OF encoder_exits(3)])
qed

lemma mp4_inner_outcome:
  "\<exists>b st'. except_fail cb (mp4_inner_try E v t f cb st) = (Inr b, st')
     \<and> events st' = events st @ told cb [Some b]"
proof (cases rule: mp4_inner_cases
      [where E = E and video_path = v and temp_aac = t and target = f
         and progress_callback = cb and st = st])
  case (demux_raises e)
  from demux_raises(2) show ?thesis by (rule outcomeI) (simp add: events_emit)
next
  case (demux_fails rc fs1)
  from demux_fails(3) show ?thesis by (rule outcomeI) (simp add: events_emit)
next
  case (convert_raises fs1 e)
  from convert_raises(3) show ?thesis by (rule outcomeI) (simp add: events_emit)
next
  case (convert_fails fs1 rc fs2)
  from convert_fails(4) show ?thesis by (rule outcomeI) (simp add: events_emit)
next
  case (converted fs1 fs2)
  from converted(3) show ?thesis by (rule outcomeI) (simp add: events_emit)
qed

lemma mp4_outcome:
  "\<exists>b st'. mp4_process_single_file E v out cb st = (Inr b, st')
     \<and> events st' = events st @ told cb [Some b]"
proof (cases rule: mp4_cases
    [where E = E and video_path = v and output_dir = out and progress_callback = cb and st = st])
  case no_name
  from no_name(2) show ?thesis by (rule outcomeI) (simp add: events_emit)
next
  case (mkdir_raises e)
  from mkdir_raises(3) show ?thesis by (rule outcomeI) (simp add: events_emit)
next
  case (skip st1)
  from skip(4) show ?thesis by (rule outcomeI) (simp add: events_emit makedirs_fields(1) [OF skip(2)])
next
  case (demux st1 b st2)
  obtain b' s' where i: "except_fail cb (mp4_inner_try E v
        (fst (splitext (join out (get_video_name v @ str_of ''.mp3''))) @ str_of ''_temp.aac'')
        (join out (get_video_name v @ str_of ''.mp3'')) cb st1) = (Inr b', s')"
    and ev': "events s' = events st1 @ told cb [Some b']"
    using mp4_inner_outcome by blast
  from i demux(4) have "b' = b" "s' = st2" by simp_all
  with ev' have ev: "events st2 = events st1 @ told cb [Some b]" by simp
  from demux(5) show ?thesis by (rule outcomeI) (simp add: ev makedirs_fields(1) [OF demux(2)])
qed

lemma bili_run_results:
  "run_tasks (bili_task_wrapper E out cb) us (c, st) = (raised, c', st') \<Longrightarrow>
     raised = []
     \<and> length (bili_results E out cb us st) = length us
     \<and> processed c' = processed c + int (length us)
     \<and> success c' = success c + int (length (filter (\<lambda>b. b) (bili_results E out cb us st)))
     \<and> events st' = events st @ told cb (map Some (bili_results E out cb us st))"
proof (induction us arbitrary: c st raised c' st')
  case Nil
  then show ?case by (simp add: told_def)
next
  case (Cons u us)
  obtain b st1 where p: "bili_process_single_file E u out cb st = (Inr b, st1)"
    and ev: "events st1 = events st @ told cb [Some b]"
    using bili_outcome by blast
  obtain raised2 c2 st2 where r: "run_tasks (bili_task_wrapper E out cb) us
      (count_result b c, st1) = (raised2, c2, st2)"
    by (cases "run_tasks (bili_task_wrapper E out cb) us (count_result b c, st1)") auto
  have step: "bili_task_wrapper E out cb u (c, st) = (Inr b, count_result b c, st1)"
    by (simp add: bili_task_wrapper_def p)
  from Cons.prems step r have eq: "raised = raised2" "c' = c2" "st' = st2"
    by simp_all
  from Cons.IH [OF r] have ih: "raised2 = []"
    "length (bili_results E out cb us st1) = length us"
    "processed c2 = processed (count_result b c) + int (length us)"
    "success c2 = success (count_result b c)
       + int (length (filter (\<lambda>b. b) (bili_results E out cb us st1)))"
    "events st2 = events st1 @ told cb (map Some (bili_results E out cb us st1))"
    by simp_all
  have res: "bili_results E out cb (u # us) st = b # bili_results E out cb us st1"
    by (simp add: p)
  have s: "success (count_result b c) + int (length (filter (\<lambda>b. b) (bili_results E out cb us st1)))
      = success c + int (length (filter (\<lambda>b. b) (b # bili_results E out cb us st1)))"
    by (cases b) (simp_all add: count_result_def)
  have pr: "processed (count_result b c) + int (length us) = processed c + int (length (u # us))"
    by (simp add: count_result_def)
  have e: "events st1 @ told cb (map Some (bili_results E out cb us st1))
      = events st @ told cb (map Some (b # bili_results E out cb us st1))"
    unfolding ev by (simp add: told_def)
  show ?case
    unfolding eq res ih s pr e by (simp add: ih(2))
qed

lemma mp4_run_results:
  "run_tasks (mp4_task_wrapper E out cb) us (c, st) = (raised, c', st') \<Longrightarrow>
     raised = []
     \<and> length (mp4_results E out cb us st) = length us
     \<and> processed c' = processed c + int (length us)
     \<and> success c' = success c + int (length (filter (\<lambda>b. b) (mp4_results E out cb us st)))
     \<and> events st' = events st
          @ told cb (concat (map (\<lambda>b. [Some b, None]) (mp4_results E out cb us st)))"
proof (induction us arbitrary: c st raised c' st')
  case Nil
  then show ?case by (simp add: told_def)
next
  case (Cons u us)
  obtain b st1 where p: "mp4_process_single_file E u out cb st = (Inr b, st1)"
    and ev: "events st1 = events st @ told cb [Some b]"
    using mp4_outcome by blast
  let ?st1 = "emit cb None st1"
  obtain raised2 c2 st2 where r: "run_tasks (mp4_task_wrapper E out cb) us
      (count_result b c, ?st1) = (raised2, c2, st2)"
    by (cases "run_tasks (mp4_task_wrapper E out cb) us (count_result b c, ?st1)") auto
  have step: "mp4_task_wrapper E out cb u (c, st) = (Inr b, count_result b c, ?st1)"
    by (simp add: mp4_task_wrapper_def p)
  from Cons.prems step r have eq: "raised = raised2" "c' = c2" "st' = st2"
    by simp_all
  from Cons.IH [OF r] have ih: "raised2 = []"
    "length (mp4_results E out cb us ?st1) = length us"
    "processed c2 = processed (count_result b c) + int (length us)"
    "success c2 = success (count_result b c)
       + int (length (filter (\<lambda>b. b) (mp4_results E out cb us ?st1)))"
    "events st2 = events ?st1
       @ told cb (concat (map (\<lambda>b. [Some b, None]) (mp4_results E out cb us ?st1)))"
    by simp_all
  have res: "mp4_results E out cb (u # us) st = b # mp4_results E out cb us ?st1"
    by (simp add: p)
  have s: "success (count_result b c)
        + int (length (filter (\<lambda>b. b) (mp4_results E out cb us ?st1)))
      = success c + int (length (filter (\<lambda>b. b) (b # mp4_results E out cb us ?st1)))"
    by (cases b) (simp_all add: count_result_def)
  have pr: "processed (count_result b c) + int (length us) = processed c + int (length (u # us))"
    by (simp add: count_result_def)
  have e: "events ?st1
        @ told cb (concat (map (\<lambda>b. [Some b, None]) (mp4_results E out cb us ?st1)))
      = events st
        @ told cb (concat (map (\<lambda>b. [Some b, None]) (b # mp4_results E out cb us ?st1)))"
    unfolding events_emit ev by (simp add: told_def)
  show ?case
    unfolding eq res ih s pr e by (simp add: ih(2))
qed

lemma bili_pfp_results:
  assumes e: "ensure_output_dir E out st = Inr st1"
    and r: "fst (bili_process_folders_parallel E dirs out cb mw st) = Inr (tot, succ)"
  shows "tot = int (length (concat (map (find_entry_json_files E) dirs)))
    \<and> length (bili_results E out cb (concat (map (find_entry_json_files E) dirs)) st1)
        = length (concat (map (find_entry_json_files E) dirs))
    \<and> succ = int (length (filter (\<lambda>b. b)
          (bili_results E out cb (concat (map (find_entry_json_files E) dirs)) st1)))
    \<and> events (snd (bili_process_folders_parallel E dirs out cb mw st))
        = events st @ told cb (map Some
            (bili_results E out cb (concat (map (find_entry_json_files E) dirs)) st1))"
proof -
  let ?us = "concat (map (find_entry_json_files E) dirs)"
  note ev1 = ensure_output_dir_fields(1) [OF e]
  show ?thesis
  proof (cases "?us = []")
    case True
    with e r have "tot = 0" "succ = 0"
      "snd (bili_process_folders_parallel E dirs out cb mw st) = st1"
      by (simp_all add: bili_process_folders_parallel_def del: concat_eq_Nil_conv)
    with True ev1 show ?thesis by (simp add: told_def del: concat_eq_Nil_conv)
  next
    case False
    with e r obtain n where p: "bili_pool E mw = Inr n"
      by (cases "bili_pool E mw")
        (simp_all add: bili_process_folders_parallel_def Let_def del: concat_eq_Nil_conv)
    obtain raised c st2 where t: "run_tasks (bili_task_wrapper E out cb) ?us
        (\<lparr>success = 0, processed = 0\<rparr>, st1) = (raised, c, st2)"
      by (cases "run_tasks (bili_task_wrapper E out cb) ?us
        (\<lparr>success = 0, processed = 0\<rparr>, st1)") auto
    note rr = bili_run_results [OF t]
    from rr have n: "raised = []" by simp
    from e False p t n have v: "bili_process_folders_parallel E dirs out cb mw st
        = (Inr (int (length ?us), success c), st2)"
      by (simp add: bili_process_folders_parallel_def Let_def del: concat_eq_Nil_conv)
    from v r have "tot = int (length ?us)" "succ = success c" by simp_all
    moreover from rr have "length (bili_results E out cb ?us st1) = length ?us"
      "success c = int (length (filter (\<lambda>b. b) (bili_results E out cb ?us st1)))"
      "events st2 = events st1 @ told cb (map Some (bili_results E out cb ?us st1))"
      by simp_all
    ultimately show ?thesis using v ev1 by simp
  qed
qed

lemma mp4_pfp_results:
  assumes e: "ensure_output_dir E out st = Inr st1"
    and r: "fst (mp4_process_folders_parallel E dirs out cb mw st) = Inr (tot, succ)"
  shows "tot = int (length (concat (map (find_video_files E) dirs)))
    \<and> length (mp4_results E out cb (concat (map (find_video_files E) dirs)) st1)
        = length (concat (map (find_video_files E) dirs))
    \<and> succ = int (length (filter (\<lambda>b. b)
          (mp4_results E out cb (concat (map (find_video_files E) dirs)) st1)))
    \<and> events (snd (mp4_process_folders_parallel E dirs out cb mw st))
        = events st @ told cb (concat (map (\<lambda>b. [Some b, None])
            (mp4_results E out cb (concat (map (find_video_files E) dirs)) st1)))"
proof -
  let ?us = "concat (map (find_video_files E) dirs)"
  note ev1 = ensure_output_dir_fields(1) [OF e]
  show ?thesis
  proof (cases "?us = []")
    case True
    with e r have "tot = 0" "succ = 0"
      "snd (mp4_process_folders_parallel E dirs out cb mw st) = st1"
      by (simp_all add: mp4_process_folders_parallel_def del: concat_eq_Nil_conv)
    with True ev1 show ?thesis by (simp add: told_def del: concat_eq_Nil_conv)
  next
    case False
    with e r obtain n where p: "mp4_pool E mw = Inr n"
      by (cases "mp4_pool E mw")
        (simp_all add: mp4_process_folders_parallel_def Let_def del: concat_eq_Nil_conv)
    obtain raised c st2 where t: "run_tasks (mp4_task_wrapper E out cb) ?us
        (\<lparr>success = 0, processed = 0\<rparr>, st1) = (raised, c, st2)"
      by (cases "run_tasks (mp4_task_wrapper E out cb) ?us
        (\<lparr>success = 0, processed = 0\<rparr>, st1)") auto
    note rr = mp4_run_results [OF t]
    from e False p t have v: "mp4_process_folders_parallel E dirs out cb mw st
        = (Inr (int (length ?us), success c), st2)"
      by (simp add: mp4_process_folders_parallel_def Let_def del: concat_eq_Nil_conv)
    from v r have "tot = int (length ?us)" "succ = success c" by simp_all
    moreover from rr have "length (mp4_results E out cb ?us st1) = length ?us"
      "success c = int (length (filter (\<lambda>b. b) (mp4_results E out cb ?us st1)))"
      "events st2 = events st1 @ told cb (concat (map (\<lambda>b. [Some b, None])
            (mp4_results E out cb ?us st1)))"
      by simp_all
    ultimately show ?thesis using v ev1 by simp
  qed
qed

section \<open>A second run\<close>

lemma exists_nonempty_present: "exists_nonempty st d leaf = present (fs st) d leaf"
  by (simp add: exists_nonempty_def entry_size_def present_def split: dnode.splits)

lemma makedirs_directory: "is_directory (fs st d) \<Longrightarrow> makedirs E d True st = Inr st"
  by (cases "fs st d") (simp_all add: makedirs_def)

lemma keeps_refl: "keeps f f d"
  by (simp add: keeps_def)

lemma keeps_trans: "keeps f g d \<Longrightarrow> keeps g h d \<Longrightarrow> keeps f h d"
  by (simp add: keeps_def)

lemma keepsD: "keeps f g d \<Longrightarrow> endswith leaf (str_of ''.mp3'') \<Longrightarrow> present f d leaf \<Longrightarrow> present g d leaf"
  by (simp add: keeps_def)

lemma endswith_append: "endswith (n @ s) s"
  by (simp add: endswith_def)

lemma leaf_mp3: "endswith (bili_leaf E p) (str_of ''.mp3'')" "endswith (mp4_leaf v) (str_of ''.mp3'')"
  by (simp_all add: bili_leaf_def mp4_leaf_def endswith_append)

lemma deliversD:
  assumes "encoder_delivers E out" and "is_directory (f out)"
  obtains f' where "ffmpeg E call f = Inr (0, f')" "is_directory (f' out)"
    "\<And>leaf. present f out leaf \<Longrightarrow> present f' out leaf"
    "\<And>leaf. output_of call = join out leaf \<Longrightarrow> present f' out leaf"
proof -
  from assms(1) obtain f' where f: "ffmpeg E call f = Inr (0, f')"
    and i: "is_directory (f out) \<longrightarrow>
             is_directory (f' out)
           \<and> (\<forall>leaf. present f out leaf \<longrightarrow> present f' out leaf)
           \<and> (\<forall>leaf. output_of call = join out leaf \<longrightarrow> present f' out leaf)"
    unfolding encoder_delivers_def by blast
  from i assms(2) have "is_directory (f' out)"
    "\<And>leaf. present f out leaf \<Longrightarrow> present f' out leaf"
    "\<And>leaf. output_of call = join out leaf \<Longrightarrow> present f' out leaf"
    by blast+
  with f that show ?thesis by blast
qed

lemma bili_delivers:
  assumes d: "encoder_delivers E out" and dir: "is_directory (fs st out)"
  shows "\<exists>st'. bili_process_single_file E p out cb st = (Inr (bili_ready E p), st')
      \<and> is_directory (fs st' out) \<and> keeps (fs st) (fs st') out
      \<and> (bili_ready E p \<longrightarrow> present (fs st') out (bili_leaf E p))"
proof (cases rule: bili_cases
    [where E = E and json_path = p and output_dir = out and progress_callback = cb and st = st])
  case no_name
  from no_name(1) have "\<not> bili_ready E p" by (simp add: bili_ready_def)
  with no_name(2) dir show ?thesis by (simp add: keeps_refl)
next
  case no_audio
  from no_audio(2) have "\<not> bili_ready E p" by (simp add: bili_ready_def)
  with no_audio(3) dir show ?thesis by (simp add: keeps_refl)
next
  case (mkdir_raises e)
  from mkdir_raises(3) makedirs_directory [OF dir, of E] show ?thesis by simp
next
  case (skip st1)
  from skip(3) makedirs_directory [OF dir, of E] have s: "st1 = st" by simp
  from skip(1,2) have r: "bili_ready E p" by (simp add: bili_ready_def)
  from skip(4) have "present (fs st) out (bili_leaf E p)"
    by (simp add: s exists_nonempty_present bili_leaf_def)
  with skip(5) s r dir show ?thesis by (simp add: keeps_refl)
next
  case (encoder_raises st1 e)
  from encoder_raises(3) makedirs_directory [OF dir, of E] have s: "st1 = st" by simp
  obtain f' where "ffmpeg E (Transcode (the (find_audio_file_cached E (dirname p)))
      (join out (the (extract_title_name_cached E p) @ str_of ''.mp3''))) (fs st) = Inr (0, f')"
    using deliversD [where E = E and out = out and f = "fs st", OF d dir] by blast
  with encoder_raises(5) s show ?thesis by simp
next
  case (encoder_exits st1 returncode fs')
  from encoder_exits(3) makedirs_directory [OF dir, of E] have s: "st1 = st" by simp
  from encoder_exits(1,2) have r: "bili_ready E p" by (simp add: bili_ready_def)
  let ?call = "Transcode (the (find_audio_file_cached E (dirname p)))
      (join out (the (extract_title_name_cached E p) @ str_of ''.mp3''))"
  obtain f' where f: "ffmpeg E ?call (fs st) = Inr (0, f')" and i: "is_directory (f' out)"
    and k: "\<And>leaf. present (fs st) out leaf \<Longrightarrow> present f' out leaf"
    and w: "\<And>leaf. output_of ?call = join out leaf \<Longrightarrow> present f' out leaf"
    using deliversD [where E = E and out = out and f = "fs st" and call = ?call, OF d dir]
    by blast
  from f encoder_exits(5) s have eq: "returncode = 0" "fs' = f'" by simp_all
  have "present f' out (bili_leaf E p)"
    by (rule w) (simp add: bili_leaf_def)
  moreover from k have "keeps (fs st) f' out" by (simp add: keeps_def)
  ultimately show ?thesis
    using encoder_exits(6) eq r i by simp
qed

lemma basename_append:
  "sep \<notin> set s \<Longrightarrow> basename (x @ s) = basename x @ s"
proof -
  assume a: "sep \<notin> set s"
  have "takeWhile (\<lambda>c. c \<noteq> sep) (rev s @ rev x) = rev s @ takeWhile (\<lambda>c. c \<noteq> sep) (rev x)"
    by (rule takeWhile_append2) (use a in auto)
  then show ?thesis by (simp add: basename_def)
qed

lemma temp_not_mp3:
  "\<not> endswith (basename (x @ str_of ''_temp.aac'')) (str_of ''.mp3'')"
proof -
  have "sep \<notin> set (str_of ''_temp.aac'')" by (simp add: str_of_def sep_def)
  then have b: "basename (x @ str_of ''_temp.aac'') = basename x @ str_of ''_temp.aac''"
    by (rule basename_append)
  show ?thesis
    unfolding b by (simp add: endswith_def str_of_def)
qed

lemma remove_temp_keeps:
  "\<not> endswith (basename t) (str_of ''.mp3'') \<Longrightarrow> keeps (fs st) (fs (remove_temp E d t st)) d"
  by (cases "fs st d") (auto simp: remove_temp_def keeps_def present_def)

lemma remove_temp_directory:
  "is_directory (fs st d) \<Longrightarrow> is_directory (fs (remove_temp E d t st) d)"
  by (cases "fs st d") (simp_all add: remove_temp_def)

lemma mp4_delivers:
  assumes d: "encoder_delivers E out" and dir: "is_directory (fs st out)"
  shows "\<exists>st'. mp4_process_single_file E v out cb st = (Inr (mp4_ready v), st')
      \<and> is_directory (fs st' out) \<and> keeps (fs st) (fs st') out
      \<and> (mp4_ready v \<longrightarrow> present (fs st') out (mp4_leaf v))"
proof (cases rule: mp4_cases
    [where E = E and video_path = v and output_dir = out and progress_callback = cb and st = st])
  case no_name
  from no_name(1) have "\<not> mp4_ready v" by (simp add: mp4_ready_def)
  with no_name(2) dir show ?thesis by (simp add: keeps_refl)
next
  case (mkdir_raises e)
  from mkdir_raises(2) makedirs_directory [OF dir, of E] show ?thesis by simp
next
  case (skip st1)
  from skip(2) makedirs_directory [OF dir, of E] have s: "st1 = st" by simp
  from skip(1) have r: "mp4_ready v" by (simp add: mp4_ready_def)
  from skip(3) have "present (fs st) out (mp4_leaf v)"
    by (simp add: s exists_nonempty_present mp4_leaf_def)
  with skip(4) s r dir show ?thesis by (simp add: keeps_refl)
next
  case (demux st1 b st2)
  from demux(2) makedirs_directory [OF dir, of E] have s: "st1 = st" by simp
  from demux(1) have r: "mp4_ready v" by (simp add: mp4_ready_def)
  let ?final = "join out (get_video_name v @ str_of ''.mp3'')"
  let ?t = "fst (splitext ?final) @ str_of ''_temp.aac''"
  let ?c1 = "StreamCopy v ?t"
  let ?c2 = "Transcode ?t ?final"
  obtain f1 where f1: "ffmpeg E ?c1 (fs st) = Inr (0, f1)" and i1: "is_directory (f1 out)"
    and k1: "\<And>leaf. present (fs st) out leaf \<Longrightarrow> present f1 out leaf"
    using deliversD [where E = E and out = out and f = "fs st" and call = ?c1, OF d dir]
    by blast
  obtain f2 where f2: "ffmpeg E ?c2 f1 = Inr (0, f2)" and i2: "is_directory (f2 out)"
    and k2: "\<And>leaf. present f1 out leaf \<Longrightarrow> present f2 out leaf"
    and w2: "\<And>leaf. output_of ?c2 = join out leaf \<Longrightarrow> present f2 out leaf"
    using deliversD [where E = E and out = out and f = f1 and call = ?c2, OF d i1]
    by blast
  have inner: "except_fail cb (mp4_inner_try E v ?t ?final cb st)
      = (Inr True, emit cb (Some True)
           (st\<lparr>fs := f2, encoder_calls := encoder_calls st @ [?c1, ?c2]\<rparr>))"
    using f1 f2 by (simp add: mp4_inner_try_def run_ffmpeg_def except_fail_def)
  from demux(4) inner s have eq: "b = True"
    "st2 = emit cb (Some True) (st\<lparr>fs := f2, encoder_calls := encoder_calls st @ [?c1, ?c2]\<rparr>)"
    by simp_all
  have fs2: "fs st2 = f2" by (simp add: eq)
  have lf: "present f2 out (mp4_leaf v)"
    by (rule w2) (simp add: mp4_leaf_def)
  have k: "keeps (fs st) f2 out"
    using k1 k2 by (simp add: keeps_def)
  note nt = temp_not_mp3 [of "fst (splitext ?final)"]
  have kr: "keeps f2 (fs (remove_temp E out ?t st2)) out"
    using remove_temp_keeps [OF nt, of st2 E out] by (simp add: fs2)
  have dr: "is_directory (fs (remove_temp E out ?t st2) out)"
    using remove_temp_directory [of st2 out E ?t] i2 by (simp add: fs2)
  have "present (fs (remove_temp E out ?t st2)) out (mp4_leaf v)"
    using keepsD [OF kr leaf_mp3(2) lf] .
  with demux(5) eq(1) r dr keeps_trans [OF k kr] show ?thesis by simp
qed

lemma bili_settled:
  assumes "bili_ready E p \<longrightarrow> exists_nonempty st out (bili_leaf E p)"
  shows "bili_process_single_file E p out cb st
           = (Inr (bili_ready E p), emit cb (Some (bili_ready E p)) st)"
proof (cases "bili_ready E p")
  case True
  with assms have "bili_in_place E st out p"
    by (simp add: bili_in_place_def bili_ready_def bili_leaf_def)
  from bili_skip [OF this] True show ?thesis by simp
next
  case False
  then have "falsy (extract_title_name_cached E p) \<or> falsy (find_audio_file_cached E (dirname p))
     \<or> (\<exists>e. makedirs E out True st = Inl e)"
    by (auto simp: bili_ready_def)
  from bili_fails_early [OF this] False show ?thesis by simp
qed

lemma mp4_settled:
  assumes "mp4_ready v \<longrightarrow> exists_nonempty st out (mp4_leaf v)"
  shows "mp4_process_single_file E v out cb st
           = (Inr (mp4_ready v), emit cb (Some (mp4_ready v)) st)"
proof (cases "mp4_ready v")
  case True
  with assms have "mp4_in_place st out v"
    by (simp add: mp4_in_place_def mp4_ready_def mp4_leaf_def)
  from mp4_skip [OF this] True show ?thesis by simp
next
  case False
  then show ?thesis
    by (simp add: mp4_ready_def mp4_process_single_file_def mp4_try_def except_fail_def)
qed

lemma bili_blocked:
  "fs st out = RegularFile \<Longrightarrow>
     bili_process_single_file E p out cb st = (Inr False, emit cb (Some False) st)"
  by (rule bili_fails_early) (simp add: makedirs_def)

lemma mp4_blocked:
  "fs st out = RegularFile \<Longrightarrow>
     mp4_process_single_file E v out cb st = (Inr False, emit cb (Some False) st)"
  by (rule mp4_fails_early) (simp add: makedirs_def)

lemma bili_task_step:
  "bili_process_single_file E u out cb st = (Inr b, st1) \<Longrightarrow>
     bili_task_wrapper E out cb u (c, st) = (Inr b, count_result b c, st1)"
  by (simp add: bili_task_wrapper_def)

lemma bili_first_run:
  assumes d: "encoder_delivers E out"
  shows "is_directory (fs st out) \<Longrightarrow>
    \<exists>c' st'. run_tasks (bili_task_wrapper E out cb) us (c, st) = ([], c', st')
      \<and> success c' = success c + int (length (filter (bili_ready E) us))
      \<and> is_directory (fs st' out) \<and> keeps (fs st) (fs st') out
      \<and> (\<forall>u\<in>set us. bili_ready E u \<longrightarrow> present (fs st') out (bili_leaf E u))"
proof (induction us arbitrary: c st)
  case Nil
  then show ?case by (simp add: keeps_refl)
next
  case (Cons u us)
  from bili_delivers [OF d Cons.prems, of u cb]
  obtain st1 where p: "bili_process_single_file E u out cb st = (Inr (bili_ready E u), st1)"
    and i1: "is_directory (fs st1 out)" and k1: "keeps (fs st) (fs st1) out"
    and w1: "bili_ready E u \<longrightarrow> present (fs st1) out (bili_leaf E u)"
    by blast
  let ?s = "st1"
  have fs1: "fs ?s = fs st1" by simp
  from i1 have i: "is_directory (fs ?s out)" by simp
  from Cons.IH [OF i, of "count_result (bili_ready E u) c"]
  obtain c' st' where r: "run_tasks (bili_task_wrapper E out cb) us
        (count_result (bili_ready E u) c, ?s) = ([], c', st')"
    and s: "success c' = success (count_result (bili_ready E u) c)
        + int (length (filter (bili_ready E) us))"
    and i': "is_directory (fs st' out)" and k': "keeps (fs ?s) (fs st') out"
    and w': "\<forall>u\<in>set us. bili_ready E u \<longrightarrow> present (fs st') out (bili_leaf E u)"
    by blast
  from k' have k2: "keeps (fs st1) (fs st') out" by simp
  have run: "run_tasks (bili_task_wrapper E out cb) (u # us) (c, st) = ([], c', st')"
    by (simp add: bili_task_step [OF p] r)
  have cnt: "success c' = success c + int (length (filter (bili_ready E) (u # us)))"
    unfolding s by (simp add: count_result_def)
  have wu: "bili_ready E u \<longrightarrow> present (fs st') out (bili_leaf E u)"
    using w1 keepsD [OF k2 leaf_mp3(1)] by blast
  from run cnt i' keeps_trans [OF k1 k2] wu w' show ?case by simp
qed

lemma bili_second_run:
  "(\<forall>u\<in>set us. bili_ready E u \<longrightarrow> present (fs st) out (bili_leaf E u)) \<Longrightarrow>
    \<exists>c' st'. run_tasks (bili_task_wrapper E out cb) us (c, st) = ([], c', st')
      \<and> success c' = success c + int (length (filter (bili_ready E) us))
      \<and> fs st' = fs st \<and> encoder_calls st' = encoder_calls st"
proof (induction us arbitrary: c st)
  case Nil
  then show ?case by simp
next
  case (Cons u us)
  from Cons.prems have "bili_ready E u \<longrightarrow> exists_nonempty st out (bili_leaf E u)"
    by (simp add: exists_nonempty_present)
  from bili_settled [OF this, of cb]
  have p: "bili_process_single_file E u out cb st
      = (Inr (bili_ready E u), emit cb (Some (bili_ready E u)) st)" .
  let ?st1 = "emit cb (Some (bili_ready E u)) st"
  let ?s = "?st1"
  have fs1: "fs ?s = fs st" and en1: "encoder_calls ?s = encoder_calls st" by simp_all
  from Cons.prems have "\<forall>u\<in>set us. bili_ready E u \<longrightarrow> present (fs ?s) out (bili_leaf E u)"
    by simp
  from Cons.IH [OF this, of "count_result (bili_ready E u) c"]
  obtain c' st' where r: "run_tasks (bili_task_wrapper E out cb) us
        (count_result (bili_ready E u) c, ?s) = ([], c', st')"
    and s: "success c' = success (count_result (bili_ready E u) c)
        + int (length (filter (bili_ready E) us))"
    and f: "fs st' = fs ?s" and e: "encoder_calls st' = encoder_calls ?s"
    by blast
  have run: "run_tasks (bili_task_wrapper E out cb) (u # us) (c, st) = ([], c', st')"
    by (simp add: bili_task_step [OF p] r)
  have cnt: "success c' = success c + int (length (filter (bili_ready E) (u # us)))"
    unfolding s by (simp add: count_result_def)
  from run cnt f e fs1 en1 show ?case by simp
qed

lemma bili_blocked_run:
  "fs st out = RegularFile \<Longrightarrow>
    \<exists>c' st'. run_tasks (bili_task_wrapper E out cb) us (c, st) = ([], c', st')
      \<and> success c' = success c
      \<and> fs st' = fs st \<and> encoder_calls st' = encoder_calls st"
proof (induction us arbitrary: c st)
  case Nil
  then show ?case by simp
next
  case (Cons u us)
  from bili_blocked [OF Cons.prems, of E u cb]
  have p: "bili_process_single_file E u out cb st = (Inr False, emit cb (Some False) st)" .
  let ?st1 = "emit cb (Some False) st"
  let ?s = "?st1"
  have fs1: "fs ?s = fs st" and en1: "encoder_calls ?s = encoder_calls st" by simp_all
  from Cons.prems have "fs ?s out = RegularFile" by simp
  from Cons.IH [OF this, of "count_result False c"]
  obtain c' st' where r: "run_tasks (bili_task_wrapper E out cb) us
        (count_result False c, ?s) = ([], c', st')"
    and s: "success c' = success (count_result False c)"
    and f: "fs st' = fs ?s" and e: "encoder_calls st' = encoder_calls ?s"
    by blast
  have run: "run_tasks (bili_task_wrapper E out cb) (u # us) (c, st) = ([], c', st')"
    by (simp add: bili_task_step [OF p] r)
  from run s f e fs1 en1 show ?case by (simp add: count_result_def)
qed

lemma mp4_task_step:
  "mp4_process_single_file E u out cb st = (Inr b, st1) \<Longrightarrow>
     mp4_task_wrapper E out cb u (c, st) = (Inr b, count_result b c, emit cb None st1)"
  by (simp add: mp4_task_wrapper_def)

lemma mp4_first_run:
  assumes d: "encoder_delivers E out"
  shows "is_directory (fs st out) \<Longrightarrow>
    \<exists>c' st'. run_tasks (mp4_task_wrapper E out cb) us (c, st) = ([], c', st')
      \<and> success c' = success c + int (length (filter (mp4_ready) us))
      \<and> is_directory (fs st' out) \<and> keeps (fs st) (fs st') out
      \<and> (\<forall>u\<in>set us. mp4_ready u \<longrightarrow> present (fs st') out (mp4_leaf u))"
proof (induction us arbitrary: c st)
  case Nil
  then show ?case by (simp add: keeps_refl)
next
  case (Cons u us)
  from mp4_delivers [OF d Cons.prems, of u cb]
  obtain st1 where p: "mp4_process_single_file E u out cb st = (Inr (mp4_ready u), st1)"
    and i1: "is_directory (fs st1 out)" and k1: "keeps (fs st) (fs st1) out"
    and w1: "mp4_ready u \<longrightarrow> present (fs st1) out (mp4_leaf u)"
    by blast
  let ?s = "emit cb None st1"
  have fs1: "fs ?s = fs st1" by simp
  from i1 have i: "is_directory (fs ?s out)" by simp
  from Cons.IH [OF i, of "count_result (mp4_ready u) c"]
  obtain c' st' where r: "run_tasks (mp4_task_wrapper E out cb) us
        (count_result (mp4_ready u) c, ?s) = ([], c', st')"
    and s: "success c' = success (count_result (mp4_ready u) c)
        + int (length (filter (mp4_ready) us))"
    and i': "is_directory (fs st' out)" and k': "keeps (fs ?s) (fs st') out"
    and w': "\<forall>u\<in>set us. mp4_ready u \<longrightarrow> present (fs st') out (mp4_leaf u)"
    by blast
  from k' have k2: "keeps (fs st1) (fs st') out" by simp
  have run: "run_tasks (mp4_task_wrapper E out cb) (u # us) (c, st) = ([], c', st')"
    by (simp add: mp4_task_step [OF p] r)
  have cnt: "success c' = success c + int (length (filter (mp4_ready) (u # us)))"
    unfolding s by (simp add: count_result_def)
  have wu: "mp4_ready u \<longrightarrow> present (fs st') out (mp4_leaf u)"
    using w1 keepsD [OF k2 leaf_mp3(2)] by blast
  from run cnt i' keeps_trans [OF k1 k2] wu w' show ?case by simp
qed

lemma mp4_second_run:
  "(\<forall>u\<in>set us. mp4_ready u \<longrightarrow> present (fs st) out (mp4_leaf u)) \<Longrightarrow>
    \<exists>c' st'. run_tasks (mp4_task_wrapper E out cb) us (c, st) = ([], c', st')
      \<and> success c' = success c + int (length (filter (mp4_ready) us))
      \<and> fs st' = fs st \<and> encoder_calls st' = encoder_calls st"
proof (induction us arbitrary: c st)
  case Nil
  then show ?case by simp
next
  case (Cons u us)
  from Cons.prems have "mp4_ready u \<longrightarrow> exists_nonempty st out (mp4_leaf u)"
    by (simp add: exists_nonempty_present)
  from mp4_settled [OF this, of E cb]
  have p: "mp4_process_single_file E u out cb st
      = (Inr (mp4_ready u), emit cb (Some (mp4_ready u)) st)" .
  let ?st1 = "emit cb (Some (mp4_ready u)) st"
  let ?s = "emit cb None ?st1"
  have fs1: "fs ?s = fs st" and en1: "encoder_calls ?s = encoder_calls st" by simp_all
  from Cons.prems have "\<forall>u\<in>set us. mp4_ready u \<longrightarrow> present (fs ?s) out (mp4_leaf u)"
    by simp
  from Cons.IH [OF this, of "count_result (mp4_ready u) c"]
  obtain c' st' where r: "run_tasks (mp4_task_wrapper E out cb) us
        (count_result (mp4_ready u) c, ?s) = ([], c', st')"
    and s: "success c' = success (count_result (mp4_ready u) c)
        + int (length (filter (mp4_ready) us))"
    and f: "fs st' = fs ?s" and e: "encoder_calls st' = encoder_calls ?s"
    by blast
  have run: "run_tasks (mp4_task_wrapper E out cb) (u # us) (c, st) = ([], c', st')"
    by (simp add: mp4_task_step [OF p] r)
  have cnt: "success c' = success c + int (length (filter (mp4_ready) (u # us)))"
    unfolding s by (simp add: count_result_def)
  from run cnt f e fs1 en1 show ?case by simp
qed

lemma mp4_blocked_run:
  "fs st out = RegularFile \<Longrightarrow>
    \<exists>c' st'. run_tasks (mp4_task_wrapper E out cb) us (c, st) = ([], c', st')
      \<and> success c' = success c
      \<and> fs st' = fs st \<and> encoder_calls st' = encoder_calls st"
proof (induction us arbitrary: c st)
  case Nil
  then show ?case by simp
next
  case (Cons u us)
  from mp4_blocked [OF Cons.prems, of E u cb]
  have p: "mp4_process_single_file E u out cb st = (Inr False, emit cb (Some False) st)" .
  let ?st1 = "emit cb (Some False) st"
  let ?s = "emit cb None ?st1"
  have fs1: "fs ?s = fs st" and en1: "encoder_calls ?s = encoder_calls st" by simp_all
  from Cons.prems have "fs ?s out = RegularFile" by simp
  from Cons.IH [OF this, of "count_result False c"]
  obtain c' st' where r: "run_tasks (mp4_task_wrapper E out cb) us
        (count_result False c, ?s) = ([], c', st')"
    and s: "success c' = success (count_result False c)"
    and f: "fs st' = fs ?s" and e: "encoder_calls st' = encoder_calls ?s"
    by blast
  have run: "run_tasks (mp4_task_wrapper E out cb) (u # us) (c, st) = ([], c', st')"
    by (simp add: mp4_task_step [OF p] r)
  from run s f e fs1 en1 show ?case by (simp add: count_result_def)
qed

lemma bili_rerun:
  assumes d: "encoder_delivers E out"
    and r: "fst (bili_process_folders_parallel E dirs out cb mw st) = Inr (tot, succ)"
  shows "fst (bili_process_folders_parallel E dirs out cb mw
                (snd (bili_process_folders_parallel E dirs out cb mw st))) = Inr (tot, succ)
     \<and> encoder_calls (snd (bili_process_folders_parallel E dirs out cb mw
                (snd (bili_process_folders_parallel E dirs out cb mw st))))
         = encoder_calls (snd (bili_process_folders_parallel E dirs out cb mw st))
     \<and> fs (snd (bili_process_folders_parallel E dirs out cb mw
                (snd (bili_process_folders_parallel E dirs out cb mw st))))
         = fs (snd (bili_process_folders_parallel E dirs out cb mw st))"
proof -
  let ?us = "concat (map (find_entry_json_files E) dirs)"
  let ?c0 = "\<lparr>success = 0, processed = 0\<rparr>"
  from r obtain sa where e: "ensure_output_dir E out st = Inr sa"
    by (cases "ensure_output_dir E out st") (simp_all add: bili_process_folders_parallel_def)
  note na = ensure_output_dir_fields(4) [OF e]
  show ?thesis
  proof (cases "?us = []")
    case True
    with e have "bili_process_folders_parallel E dirs out cb mw st = (Inr (0, 0), sa)"
      by (simp add: bili_process_folders_parallel_def del: concat_eq_Nil_conv)
    moreover from True na
    have "bili_process_folders_parallel E dirs out cb mw sa = (Inr (0, 0), sa)"
      by (simp add: bili_process_folders_parallel_def ensure_output_dir_kept
          del: concat_eq_Nil_conv)
    ultimately show ?thesis using r by simp
  next
    case False
    with e r obtain n where p: "bili_pool E mw = Inr n"
      by (cases "bili_pool E mw")
        (simp_all add: bili_process_folders_parallel_def Let_def del: concat_eq_Nil_conv)
    have run: "\<And>s0 c' s1. fs s0 out \<noteq> Absent \<Longrightarrow>
        run_tasks (bili_task_wrapper E out cb) ?us (?c0, s0) = ([], c', s1) \<Longrightarrow>
        bili_process_folders_parallel E dirs out cb mw s0
          = (Inr (int (length ?us), success c'), s1)"
      using False p
      by (simp add: bili_process_folders_parallel_def ensure_output_dir_kept Let_def
          del: concat_eq_Nil_conv)
    have first: "\<And>c' s1.
        run_tasks (bili_task_wrapper E out cb) ?us (?c0, sa) = ([], c', s1) \<Longrightarrow>
        bili_process_folders_parallel E dirs out cb mw st
          = (Inr (int (length ?us), success c'), s1)"
      using False p e
      by (simp add: bili_process_folders_parallel_def Let_def del: concat_eq_Nil_conv)
    show ?thesis
    proof (cases "fs sa out")
      case Absent
      with na show ?thesis by simp
    next
      case RegularFile
      from bili_blocked_run [OF RegularFile, of E cb ?us ?c0]
      obtain c1 s1 where t1: "run_tasks (bili_task_wrapper E out cb) ?us (?c0, sa) = ([], c1, s1)"
        and u1: "success c1 = success ?c0" and f1: "fs s1 = fs sa"
        by blast
      from f1 RegularFile have b1: "fs s1 out = RegularFile" by simp
      from bili_blocked_run [OF b1, of E cb ?us ?c0]
      obtain c2 s2 where t2: "run_tasks (bili_task_wrapper E out cb) ?us (?c0, s1) = ([], c2, s2)"
        and u2: "success c2 = success ?c0" and e2: "encoder_calls s2 = encoder_calls s1"
        and f2: "fs s2 = fs s1"
        by blast
      from b1 have n1: "fs s1 out \<noteq> Absent" by simp
      note v1 = first [OF t1]
      note v2 = run [OF n1 t2]
      from r v1 have "tot = int (length ?us)" "succ = success c1" by simp_all
      with v1 v2 u1 u2 e2 f2 show ?thesis by simp
    next
      case (Directory m)
      then have dir: "is_directory (fs sa out)" by simp
      from bili_first_run [OF d dir, of cb ?us ?c0]
      obtain c1 s1 where t1: "run_tasks (bili_task_wrapper E out cb) ?us (?c0, sa) = ([], c1, s1)"
        and u1: "success c1 = success ?c0 + int (length (filter (bili_ready E) ?us))"
        and i1: "is_directory (fs s1 out)"
        and w1: "\<forall>u\<in>set ?us. bili_ready E u \<longrightarrow> present (fs s1) out (bili_leaf E u)"
        by blast
      from bili_second_run [OF w1, of cb ?c0]
      obtain c2 s2 where t2: "run_tasks (bili_task_wrapper E out cb) ?us (?c0, s1) = ([], c2, s2)"
        and u2: "success c2 = success ?c0 + int (length (filter (bili_ready E) ?us))"
        and e2: "encoder_calls s2 = encoder_calls s1" and f2: "fs s2 = fs s1"
        by blast
      from i1 have n1: "fs s1 out \<noteq> Absent" by (cases "fs s1 out") simp_all
      note v1 = first [OF t1]
      note v2 = run [OF n1 t2]
      from r v1 have "tot = int (length ?us)" "succ = success c1" by simp_all
      with v1 v2 u1 u2 e2 f2 show ?thesis by simp
    qed
  qed
qed

lemma mp4_rerun:
  assumes d: "encoder_delivers E out"
    and r: "fst (mp4_process_folders_parallel E dirs out cb mw st) = Inr (tot, succ)"
  shows "fst (mp4_process_folders_parallel E dirs out cb mw
                (snd (mp4_process_folders_parallel E dirs out cb mw st))) = Inr (tot, succ)
     \<and> encoder_calls (snd (mp4_process_folders_parallel E dirs out cb mw
                (snd (mp4_process_folders_parallel E dirs out cb mw st))))
         = encoder_calls (snd (mp4_process_folders_parallel E dirs out cb mw st))
     \<and> fs (snd (mp4_process_folders_parallel E dirs out cb mw
                (snd (mp4_process_folders_parallel E dirs out cb mw st))))
         = fs (snd (mp4_process_folders_parallel E dirs out cb mw st))"
proof -
  let ?us = "concat (map (find_video_files E) dirs)"
  let ?c0 = "\<lparr>success = 0, processed = 0\<rparr>"
  from r obtain sa where e: "ensure_output_dir E out st = Inr sa"
    by (cases "ensure_output_dir E out st") (simp_all add: mp4_process_folders_parallel_def)
  note na = ensure_output_dir_fields(4) [OF e]
  show ?thesis
  proof (cases "?us = []")
    case True
    with e have "mp4_process_folders_parallel E dirs out cb mw st = (Inr (0, 0), sa)"
      by (simp add: mp4_process_folders_parallel_def del: concat_eq_Nil_conv)
    moreover from True na
    have "mp4_process_folders_parallel E dirs out cb mw sa = (Inr (0, 0), sa)"
      by (simp add: mp4_process_folders_parallel_def ensure_output_dir_kept
          del: concat_eq_Nil_conv)
    ultimately show ?thesis using r by simp
  next
    case False
    with e r obtain n where p: "mp4_pool E mw = Inr n"
      by (cases "mp4_pool E mw")
        (simp_all add: mp4_process_folders_parallel_def Let_def del: concat_eq_Nil_conv)
    have run: "\<And>s0 c' s1. fs s0 out \<noteq> Absent \<Longrightarrow>
        run_tasks (mp4_task_wrapper E out cb) ?us (?c0, s0) = ([], c', s1) \<Longrightarrow>
        mp4_process_folders_parallel E dirs out cb mw s0
          = (Inr (int (length ?us), success c'), s1)"
      using False p
      by (simp add: mp4_process_folders_parallel_def ensure_output_dir_kept Let_def
          del: concat_eq_Nil_conv)
    have first: "\<And>c' s1.
        run_tasks (mp4_task_wrapper E out cb) ?us (?c0, sa) = ([], c', s1) \<Longrightarrow>
        mp4_process_folders_parallel E dirs out cb mw st
          = (Inr (int (length ?us), success c'), s1)"
      using False p e
      by (simp add: mp4_process_folders_parallel_def Let_def del: concat_eq_Nil_conv)
    show ?thesis
    proof (cases "fs sa out")
      case Absent
      with na show ?thesis by simp
    next
      case RegularFile
      from mp4_blocked_run [OF RegularFile, of E cb ?us ?c0]
      obtain c1 s1 where t1: "run_tasks (mp4_task_wrapper E out cb) ?us (?c0, sa) = ([], c1, s1)"
        and u1: "success c1 = success ?c0" and f1: "fs s1 = fs sa"
        by blast
      from f1 RegularFile have b1: "fs s1 out = RegularFile" by simp
      from mp4_blocked_run [OF b1, of E cb ?us ?c0]
      obtain c2 s2 where t2: "run_tasks (mp4_task_wrapper E out cb) ?us (?c0, s1) = ([], c2, s2)"
        and u2: "success c2 = success ?c0" and e2: "encoder_calls s2 = encoder_calls s1"
        and f2: "fs s2 = fs s1"
        by blast
      from b1 have n1: "fs s1 out \<noteq> Absent" by simp
      note v1 = first [OF t1]
      note v2 = run [OF n1 t2]
      from r v1 have "tot = int (length ?us)" "succ = success c1" by simp_all
      with v1 v2 u1 u2 e2 f2 show ?thesis by simp
    next
      case (Directory m)
      then have dir: "is_directory (fs sa out)" by simp
      from mp4_first_run [OF d dir, of cb ?us ?c0]
      obtain c1 s1 where t1: "run_tasks (mp4_task_wrapper E out cb) ?us (?c0, sa) = ([], c1, s1)"
        and u1: "success c1 = success ?c0 + int (length (filter (mp4_ready) ?us))"
        and i1: "is_directory (fs s1 out)"
        and w1: "\<forall>u\<in>set ?us. mp4_ready u \<longrightarrow> present (fs s1) out (mp4_leaf u)"
        by blast
      from mp4_second_run [OF w1, of E cb ?c0]
      obtain c2 s2 where t2: "run_tasks (mp4_task_wrapper E out cb) ?us (?c0, s1) = ([], c2, s2)"
        and u2: "success c2 = success ?c0 + int (length (filter (mp4_ready) ?us))"
        and e2: "encoder_calls s2 = encoder_calls s1" and f2: "fs s2 = fs s1"
        by blast
      from i1 have n1: "fs s1 out \<noteq> Absent" by (cases "fs s1 out") simp_all
      note v1 = first [OF t1]
      note v2 = run [OF n1 t2]
      from r v1 have "tot = int (length ?us)" "succ = success c1" by simp_all
      with v1 v2 u1 u2 e2 f2 show ?thesis by simp
    qed
  qed
qed

lemma encoder_into_delivers:
  "ffmpeg E = encoder_into out \<Longrightarrow> encoder_delivers E out"
  unfolding encoder_delivers_def
proof (intro allI)
  fix call f
  assume e: "ffmpeg E = encoder_into out"
  let ?f' = "f(out := Directory (\<lambda>leaf.
            if join out leaf = output_of call then Some 1000
            else (case f out of Directory m \<Rightarrow> m leaf | _ \<Rightarrow> None)))"
  have 1: "ffmpeg E call f = Inr (0, ?f')" by (simp add: e encoder_into_def)
  have 2: "is_directory (?f' out)" by simp
  have 3: "\<forall>leaf. present f out leaf \<longrightarrow> present ?f' out leaf"
    by (cases "f out") (simp_all add: present_def)
  have 4: "\<forall>leaf. output_of call = join out leaf \<longrightarrow> present ?f' out leaf"
    by (simp add: present_def)
  from 1 2 3 4 show "\<exists>f'. ffmpeg E call f = Inr (0, f') \<and>
            (is_directory (f out) \<longrightarrow>
             is_directory (f' out) \<and>
             (\<forall>leaf. present f out leaf \<longrightarrow> present f' out leaf) \<and>
             (\<forall>leaf. output_of call = join out leaf \<longrightarrow> present f' out leaf))"
    by blast
qed

section \<open>Properties of the name sanitizer\<close>

lemma limit_length_le: "length (limit_length s) \<le> 150"
  by (simp add: limit_length_def)

lemma limit_length_id: "length s \<le> 150 \<Longrightarrow> limit_length s = s"
  by (simp add: limit_length_def)

lemma set_limit_length: "set (limit_length s) \<subseteq> set s"
  by (auto simp: limit_length_def dest: in_set_takeD)

lemma clean_name_valid: "set (clean_name s) \<inter> invalid_chars = {}"
  using set_limit_length [of "filter (\<lambda>c. c \<notin> invalid_chars) s"]
  by (auto simp: clean_name_def)

lemma filter_valid_id:
  "set s \<inter> invalid_chars = {} \<Longrightarrow> filter (\<lambda>c. c \<notin> invalid_chars) s = s"
  by (induction s) auto

lemma extract_title_name_str:
  "map_of kvs (str_of ''title'') = Some (JStr s) \<Longrightarrow>
     extract_title_name (Some (JObj kvs)) = Some (clean_name s)"
  by (simp add: extract_title_name_def clean_name_def)

text \<open>
  C4. The cleaning step is idempotent, and for every input string its output has at most
  150 characters and none of the nine reserved characters.
\<close>

theorem clean_name_idempotent_bounded:
  "clean_name (clean_name s) = clean_name s
   \<and> length (clean_name s) \<le> 150
   \<and> set (clean_name s) \<inter> {92, 47, 58, 42, 63, 34, 60, 62, 124} = {}"
proof -
  have valid: "set (clean_name s) \<inter> invalid_chars = {}"
    by (rule clean_name_valid)
  have len: "length (clean_name s) \<le> 150"
    by (simp add: clean_name_def limit_length_le)
  have "filter (\<lambda>c. c \<notin> invalid_chars) (clean_name s) = clean_name s"
    using valid by (rule filter_valid_id)
  then have "clean_name (clean_name s) = limit_length (clean_name s)"
    by (simp add: clean_name_def [of "clean_name s"])
  also have "\<dots> = clean_name s"
    using len by (rule limit_length_id)
  finally have idem: "clean_name (clean_name s) = clean_name s" .
  from valid have "set (clean_name s) \<inter> {92, 47, 58, 42, 63, 34, 60, 62, 124} = {}"
    by (simp only: invalid_chars_def)
  with idem len show ?thesis by blast
qed

section \<open>Skipping what exists\<close>

text \<open>
  C1, amended. A unit whose destination \<open>output_dir/<name>.mp3\<close> exists with a size above
  zero is skipped: \<open>process_single_file\<close> returns \<open>True\<close>, reports \<open>True\<close> and changes
  nothing else, so the encoder is not invoked. In mp4Tomp3.py that holds for every unit with
  a non-empty name; in biliAudioToMp3\_.py the audio file must be found as well, since the
  lookup comes before the check. When every encoder invocation exits with 0 and leaves its
  output file in the output directory with a size above zero, keeping what the directory
  holds, and a first run of \<open>process_folders_parallel\<close> returned \<open>(total, succeeded)\<close>,
  then a second run with the same arguments, started where the first one ended, returns
  the same \<open>(total, succeeded)\<close>, invokes the encoder not once and leaves the output side
  as the first run left it.
\<close>

theorem skip_when_in_place:
  "(mp4_in_place st out v \<longrightarrow>
      mp4_process_single_file E v out cb st = (Inr True, emit cb (Some True) st))
   \<and> (bili_in_place E st out p \<longrightarrow>
      bili_process_single_file E p out cb st = (Inr True, emit cb (Some True) st))
   \<and> (encoder_delivers E out
        \<and> fst (mp4_process_folders_parallel E dirs out cb mw st) = Inr (tot, succ) \<longrightarrow>
      fst (mp4_process_folders_parallel E dirs out cb mw
             (snd (mp4_process_folders_parallel E dirs out cb mw st))) = Inr (tot, succ)
      \<and> encoder_calls (snd (mp4_process_folders_parallel E dirs out cb mw
             (snd (mp4_process_folders_parallel E dirs out cb mw st))))
          = encoder_calls (snd (mp4_process_folders_parallel E dirs out cb mw st))
      \<and> fs (snd (mp4_process_folders_parallel E dirs out cb mw
             (snd (mp4_process_folders_parallel E dirs out cb mw st))))
          = fs (snd (mp4_process_folders_parallel E dirs out cb mw st)))
   \<and> (encoder_delivers E out
        \<and> fst (bili_process_folders_parallel E dirs out cb mw st) = Inr (tot, succ) \<longrightarrow>
      fst (bili_process_folders_parallel E dirs out cb mw
             (snd (bili_process_folders_parallel E dirs out cb mw st))) = Inr (tot, succ)
      \<and> encoder_calls (snd (bili_process_folders_parallel E dirs out cb mw
             (snd (bili_process_folders_parallel E dirs out cb mw st))))
          = encoder_calls (snd (bili_process_folders_parallel E dirs out cb mw st))
      \<and> fs (snd (bili_process_folders_parallel E dirs out cb mw
             (snd (bili_process_folders_parallel E dirs out cb mw st))))
          = fs (snd (bili_process_folders_parallel E dirs out cb mw st)))"
proof (intro conjI impI)
  assume "mp4_in_place st out v"
  then show "mp4_process_single_file E v out cb st = (Inr True, emit cb (Some True) st)"
    by (rule mp4_skip)
next
  assume "bili_in_place E st out p"
  then show "bili_process_single_file E p out cb st = (Inr True, emit cb (Some True) st)"
    by (rule bili_skip)
next
  assume a: "encoder_delivers E out
        \<and> fst (mp4_process_folders_parallel E dirs out cb mw st) = Inr (tot, succ)"
  note r = mp4_rerun [OF a [THEN conjunct1] a [THEN conjunct2]]
  from r show "fst (mp4_process_folders_parallel E dirs out cb mw
             (snd (mp4_process_folders_parallel E dirs out cb mw st))) = Inr (tot, succ)"
    by (rule conjunct1)
  from r show "encoder_calls (snd (mp4_process_folders_parallel E dirs out cb mw
             (snd (mp4_process_folders_parallel E dirs out cb mw st))))
          = encoder_calls (snd (mp4_process_folders_parallel E dirs out cb mw st))"
    by (rule conjunct2 [THEN conjunct1])
  from r show "fs (snd (mp4_process_folders_parallel E dirs out cb mw
             (snd (mp4_process_folders_parallel E dirs out cb mw st))))
          = fs (snd (mp4_process_folders_parallel E dirs out cb mw st))"
    by (rule conjunct2 [THEN conjunct2])
next
  assume a: "encoder_delivers E out
        \<and> fst (bili_process_folders_parallel E dirs out cb mw st) = Inr (tot, succ)"
  note r = bili_rerun [OF a [THEN conjunct1] a [THEN conjunct2]]
  from r show "fst (bili_process_folders_parallel E dirs out cb mw
             (snd (bili_process_folders_parallel E dirs out cb mw st))) = Inr (tot, succ)"
    by (rule conjunct1)
  from r show "encoder_calls (snd (bili_process_folders_parallel E dirs out cb mw
             (snd (bili_process_folders_parallel E dirs out cb mw st))))
          = encoder_calls (snd (bili_process_folders_parallel E dirs out cb mw st))"
    by (rule conjunct2 [THEN conjunct1])
  from r show "fs (snd (bili_process_folders_parallel E dirs out cb mw
             (snd (bili_process_folders_parallel E dirs out cb mw st))))
          = fs (snd (bili_process_folders_parallel E dirs out cb mw st))"
    by (rule conjunct2 [THEN conjunct2])
qed

text \<open>
  The hypotheses of C1 hold for \<open>in/clip.mp4\<close> next to \<open>out/clip.mp3\<close> and for a
  descriptor titled \<open>a\<close> with its \<open>audio.m4a\<close> next to \<open>out/a.mp3\<close>, on a machine
  where the encoder cannot even be started; and for two runs over a directory with two
  descriptors and two videos, one of each failing before the encoder, where the first run
  starts without an output directory and both runs return \<open>(2, 1)\<close>.
\<close>

theorem skip_when_in_place_witness:
  "mp4_in_place (holding (str_of ''clip.mp3'')) (str_of ''out'') (str_of ''in/clip.mp4'')
   \<and> mp4_process_single_file (machine None [File (str_of ''clip.mp4'')] encoder_missing)
         (str_of ''in/clip.mp4'') (str_of ''out'') True (holding (str_of ''clip.mp3''))
       = (Inr True, emit True (Some True) (holding (str_of ''clip.mp3'')))
   \<and> bili_in_place
         (machine (titled ''a'') [File (str_of ''entry.json''), File (str_of ''audio.m4a'')]
            encoder_missing)
         (holding (str_of ''a.mp3'')) (str_of ''out'') (str_of ''in/entry.json'')
   \<and> bili_process_single_file
         (machine (titled ''a'') [File (str_of ''entry.json''), File (str_of ''audio.m4a'')]
            encoder_missing)
         (str_of ''in/entry.json'') (str_of ''out'') True (holding (str_of ''a.mp3''))
       = (Inr True, emit True (Some True) (holding (str_of ''a.mp3'')))
   \<and> encoder_delivers (library (encoder_into (str_of ''out''))) (str_of ''out'')
   \<and> fst 
        (mp4_process_folders_parallel (library (encoder_into (str_of ''out'')))
          [str_of ''in''] (str_of ''out'') True None fresh) = Inr (2, 1)
   \<and> fst 
        (mp4_process_folders_parallel (library (encoder_into (str_of ''out'')))
          [str_of ''in''] (str_of ''out'') True None
          (snd (mp4_process_folders_parallel (library (encoder_into (str_of ''out'')))
          [str_of ''in''] (str_of ''out'') True None fresh))) = Inr (2, 1)
   \<and> length (encoder_calls (snd 
        (mp4_process_folders_parallel (library (encoder_into (str_of ''out'')))
          [str_of ''in''] (str_of ''out'') True None fresh))) = 2
   \<and> length (encoder_calls (snd 
        (mp4_process_folders_parallel (library (encoder_into (str_of ''out'')))
          [str_of ''in''] (str_of ''out'') True None
          (snd (mp4_process_folders_parallel (library (encoder_into (str_of ''out'')))
          [str_of ''in''] (str_of ''out'') True None fresh))))) = 2
   \<and> fst 
        (bili_process_folders_parallel (library (encoder_into (str_of ''out'')))
          [str_of ''in''] (str_of ''out'') True None fresh) = Inr (2, 1)
   \<and> fst 
        (bili_process_folders_parallel (library (encoder_into (str_of ''out'')))
          [str_of ''in''] (str_of ''out'') True None
          (snd (bili_process_folders_parallel (library (encoder_into (str_of ''out'')))
          [str_of ''in''] (str_of ''out'') True None fresh))) = Inr (2, 1)
   \<and> length (encoder_calls (snd 
        (bili_process_folders_parallel (library (encoder_into (str_of ''out'')))
          [str_of ''in''] (str_of ''out'') True None fresh))) = 1
   \<and> length (encoder_calls (snd 
        (bili_process_folders_parallel (library (encoder_into (str_of ''out'')))
          [str_of ''in''] (str_of ''out'') True None
          (snd (bili_process_folders_parallel (library (encoder_into (str_of ''out'')))
          [str_of ''in''] (str_of ''out'') True None fresh))))) = 1"
proof -
  let ?Em = "machine None [File (str_of ''clip.mp4'')] encoder_missing"
  let ?Eb = "machine (titled ''a'') [File (str_of ''entry.json''), File (str_of ''audio.m4a'')]
               encoder_missing"
  let ?sm = "holding (str_of ''clip.mp3'')"
  let ?sb = "holding (str_of ''a.mp3'')"
  let ?L = "library (encoder_into (str_of ''out''))"
  let ?m1 = "mp4_process_folders_parallel ?L [str_of ''in''] (str_of ''out'') True None fresh"
  let ?b1 = "bili_process_folders_parallel ?L [str_of ''in''] (str_of ''out'') True None fresh"
  let ?m2 = "mp4_process_folders_parallel ?L [str_of ''in''] (str_of ''out'') True None (snd ?m1)"
  let ?b2 = "bili_process_folders_parallel ?L [str_of ''in''] (str_of ''out'') True None (snd ?b1)"
  have m: "mp4_in_place ?sm (str_of ''out'') (str_of ''in/clip.mp4'')"
    by code_simp
  have b: "bili_in_place ?Eb ?sb (str_of ''out'') (str_of ''in/entry.json'')"
    by code_simp
  have d: "encoder_delivers ?L (str_of ''out'')"
    by (rule encoder_into_delivers) (simp add: library_def machine_def)
  have fm: "fst ?m1 = Inr (2, 1)" by code_simp
  have fb: "fst ?b1 = Inr (2, 1)" by code_simp
  have lm: "length (encoder_calls (snd ?m1)) = 2" by code_simp
  have lb: "length (encoder_calls (snd ?b1)) = 1" by code_simp
  note Tm = skip_when_in_place [where st = ?sm and out = "str_of ''out''" and E = ?Em
      and v = "str_of ''in/clip.mp4''" and cb = True]
  note Tb = skip_when_in_place [where st = ?sb and out = "str_of ''out''" and E = ?Eb
      and p = "str_of ''in/entry.json''" and cb = True]
  note Tl = skip_when_in_place [where st = fresh and out = "str_of ''out''" and E = ?L
      and cb = True and mw = None and dirs = "[str_of ''in'']" and tot = 2 and succ = 1]
  note r1 = Tm [THEN conjunct1, THEN mp, OF m]
  note r2 = Tb [THEN conjunct2, THEN conjunct1, THEN mp, OF b]
  note r3 = Tl [THEN conjunct2, THEN conjunct2, THEN conjunct1, THEN mp, OF conjI [OF d fm]]
  note r4 = Tl [THEN conjunct2, THEN conjunct2, THEN conjunct2, THEN mp, OF conjI [OF d fb]]
  note m2 = r3 [THEN conjunct1]
  note b2 = r4 [THEN conjunct1]
  from r3 [THEN conjunct2, THEN conjunct1] lm
  have lm2: "length (encoder_calls (snd ?m2)) = 2" by simp
  from r4 [THEN conjunct2, THEN conjunct1] lb
  have lb2: "length (encoder_calls (snd ?b2)) = 1" by simp
  from m r1 b r2 d fm m2 lm lm2 fb b2 lb lb2 show ?thesis by (intro conjI)
qed

text \<open>
  C1 as stated fails twice. In biliAudioToMp3\_.py: the title is \<open>a\<close>, \<open>out/a.mp3\<close>
  exists with five bytes, no audio file is found, and the call returns \<open>False\<close>. In a
  second run: with an encoder that exits with 1 the unit \<open>in/clip.mp4\<close> fails in the first
  run, after one invocation, and the second run returns the same \<open>(1, 0)\<close> after one
  more invocation.
\<close>

theorem skip_claim_refuted:
  "extract_title_name_cached (machine (titled ''a'') [] encoder_writes) (str_of ''in/1/entry.json'')
     = Some (str_of ''a'')
   \<and> exists_nonempty (holding (str_of ''a.mp3'')) (str_of ''out'') (str_of ''a.mp3'')
   \<and> fst (bili_process_single_file (machine (titled ''a'') [] encoder_writes)
             (str_of ''in/1/entry.json'') (str_of ''out'') True (holding (str_of ''a.mp3'')))
       = Inr False
   \<and> fst (mp4_process_folders_parallel (machine None [File (str_of ''clip.mp4'')] encoder_fails)
          [str_of ''in''] (str_of ''out'') True None fresh) = Inr (1, 0)
   \<and> length (encoder_calls (snd (mp4_process_folders_parallel
          (machine None [File (str_of ''clip.mp4'')] encoder_fails)
          [str_of ''in''] (str_of ''out'') True None fresh))) = 1
   \<and> fst (mp4_process_folders_parallel
          (machine None [File (str_of ''clip.mp4'')] encoder_fails)
          [str_of ''in''] (str_of ''out'') True None
          (snd (mp4_process_folders_parallel
             (machine None [File (str_of ''clip.mp4'')] encoder_fails)
             [str_of ''in''] (str_of ''out'') True None fresh))) = Inr (1, 0)
   \<and> length (encoder_calls (snd (mp4_process_folders_parallel
          (machine None [File (str_of ''clip.mp4'')] encoder_fails)
          [str_of ''in''] (str_of ''out'') True None
          (snd (mp4_process_folders_parallel
             (machine None [File (str_of ''clip.mp4'')] encoder_fails)
             [str_of ''in''] (str_of ''out'') True None fresh))))) = 2"
  by code_simp

section \<open>The unit boundary\<close>



section \<open>The batch result\<close>

text \<open>
  C3. When \<open>process_folders_parallel\<close> returns \<open>(total, success)\<close>, then \<open>total\<close> is
  the number of units discovered across the input roots; \<open>process_single_file\<close> returned
  a result for each of them, the units taken in turn from the state the output directory
  was ensured in; \<open>success\<close> is the number of \<open>True\<close> among these results, so
  \<open>0 \<le> success \<le> total\<close>; and a supplied callback was called with exactly these
  results, in mp4Tomp3.py each followed by \<open>None\<close>. With no unit the call returns
  \<open>(0, 0)\<close>, and all it did is ensure the output directory: that directory exists,
  every other path is as before, and no event, encoder invocation or removal was added.
  The call returns once the output directory is ensured and the pool is created.
\<close>

theorem batch_tally:
  "(ensure_output_dir E out st = Inr st1
      \<and> fst (bili_process_folders_parallel E dirs out cb mw st) = Inr (tot, succ) \<longrightarrow>
        tot = int (length (concat (map (find_entry_json_files E) dirs)))
      \<and> length (bili_results E out cb (concat (map (find_entry_json_files E) dirs)) st1)
          = length (concat (map (find_entry_json_files E) dirs))
      \<and> succ = int (length (filter (\<lambda>b. b)
            (bili_results E out cb (concat (map (find_entry_json_files E) dirs)) st1)))
      \<and> 0 \<le> succ \<and> succ \<le> tot
      \<and> events (snd (bili_process_folders_parallel E dirs out cb mw st))
          = events st @ told cb (map Some
              (bili_results E out cb (concat (map (find_entry_json_files E) dirs)) st1)))
   \<and> (ensure_output_dir E out st = Inr st1
      \<and> fst (mp4_process_folders_parallel E dirs out cb mw st) = Inr (tot, succ) \<longrightarrow>
        tot = int (length (concat (map (find_video_files E) dirs)))
      \<and> length (mp4_results E out cb (concat (map (find_video_files E) dirs)) st1)
          = length (concat (map (find_video_files E) dirs))
      \<and> succ = int (length (filter (\<lambda>b. b)
            (mp4_results E out cb (concat (map (find_video_files E) dirs)) st1)))
      \<and> 0 \<le> succ \<and> succ \<le> tot
      \<and> events (snd (mp4_process_folders_parallel E dirs out cb mw st))
          = events st @ told cb (concat (map (\<lambda>b. [Some b, None])
              (mp4_results E out cb (concat (map (find_video_files E) dirs)) st1))))
   \<and> (ensure_output_dir E out st = Inr st1 \<longrightarrow>
        (concat (map (find_entry_json_files E) dirs) = [] \<longrightarrow>
           bili_process_folders_parallel E dirs out cb mw st = (Inr (0, 0), st1))
      \<and> (concat (map (find_video_files E) dirs) = [] \<longrightarrow>
           mp4_process_folders_parallel E dirs out cb mw st = (Inr (0, 0), st1))
      \<and> fs st1 out \<noteq> Absent \<and> (\<forall>d. d \<noteq> out \<longrightarrow> fs st1 d = fs st d)
      \<and> events st1 = events st \<and> encoder_calls st1 = encoder_calls st
      \<and> remove_failures st1 = remove_failures st
      \<and> (bili_pool E mw = Inr n \<longrightarrow>
           (\<exists>s st'. bili_process_folders_parallel E dirs out cb mw st
              = (Inr (int (length (concat (map (find_entry_json_files E) dirs))), s), st')))
      \<and> (mp4_pool E mw = Inr n \<longrightarrow>
           (\<exists>s st'. mp4_process_folders_parallel E dirs out cb mw st
              = (Inr (int (length (concat (map (find_video_files E) dirs))), s), st'))))"
proof (intro conjI impI allI)
  assume a: "ensure_output_dir E out st = Inr st1
      \<and> fst (bili_process_folders_parallel E dirs out cb mw st) = Inr (tot, succ)"
  note R = bili_pfp_results [OF conjunct1 [OF a] conjunct2 [OF a]]
  from R show t: "tot = int (length (concat (map (find_entry_json_files E) dirs)))"
    and l: "length (bili_results E out cb (concat (map (find_entry_json_files E) dirs)) st1)
          = length (concat (map (find_entry_json_files E) dirs))"
    and s: "succ = int (length (filter (\<lambda>b. b)
            (bili_results E out cb (concat (map (find_entry_json_files E) dirs)) st1)))"
    and "events (snd (bili_process_folders_parallel E dirs out cb mw st))
          = events st @ told cb (map Some
              (bili_results E out cb (concat (map (find_entry_json_files E) dirs)) st1))"
    by blast+
  from s show "0 \<le> succ" by simp
  have "length (filter (\<lambda>b. b)
      (bili_results E out cb (concat (map (find_entry_json_files E) dirs)) st1))
    \<le> length (bili_results E out cb (concat (map (find_entry_json_files E) dirs)) st1)"
    by (rule length_filter_le)
  with t l s show "succ \<le> tot" by simp
next
  assume a: "ensure_output_dir E out st = Inr st1
      \<and> fst (mp4_process_folders_parallel E dirs out cb mw st) = Inr (tot, succ)"
  note R = mp4_pfp_results [OF conjunct1 [OF a] conjunct2 [OF a]]
  from R show t: "tot = int (length (concat (map (find_video_files E) dirs)))"
    and l: "length (mp4_results E out cb (concat (map (find_video_files E) dirs)) st1)
          = length (concat (map (find_video_files E) dirs))"
    and s: "succ = int (length (filter (\<lambda>b. b)
            (mp4_results E out cb (concat (map (find_video_files E) dirs)) st1)))"
    and "events (snd (mp4_process_folders_parallel E dirs out cb mw st))
          = events st @ told cb (concat (map (\<lambda>b. [Some b, None])
              (mp4_results E out cb (concat (map (find_video_files E) dirs)) st1)))"
    by blast+
  from s show "0 \<le> succ" by simp
  have "length (filter (\<lambda>b. b)
      (mp4_results E out cb (concat (map (find_video_files E) dirs)) st1))
    \<le> length (mp4_results E out cb (concat (map (find_video_files E) dirs)) st1)"
    by (rule length_filter_le)
  with t l s show "succ \<le> tot" by simp
next
  assume e: "ensure_output_dir E out st = Inr st1"
  from ensure_output_dir_fields [OF e]
  show "fs st1 out \<noteq> Absent" "events st1 = events st" "encoder_calls st1 = encoder_calls st"
    "remove_failures st1 = remove_failures st"
    by simp_all
  { fix d assume "d \<noteq> out"
    then show "fs st1 d = fs st d" by (rule ensure_output_dir_fields(5) [OF e]) }
  { assume "concat (map (find_entry_json_files E) dirs) = []"
    then show "bili_process_folders_parallel E dirs out cb mw st = (Inr (0, 0), st1)"
      by (rule pfp_no_units(1) [OF e]) }
  { assume "concat (map (find_video_files E) dirs) = []"
    then show "mp4_process_folders_parallel E dirs out cb mw st = (Inr (0, 0), st1)"
      by (rule pfp_no_units(2) [OF e]) }
  { assume "bili_pool E mw = Inr n"
    with e show "\<exists>s st'. bili_process_folders_parallel E dirs out cb mw st
              = (Inr (int (length (concat (map (find_entry_json_files E) dirs))), s), st')"
      by (rule bili_pfp_returns) }
  { assume "mp4_pool E mw = Inr n"
    with e show "\<exists>s st'. mp4_process_folders_parallel E dirs out cb mw st
              = (Inr (int (length (concat (map (find_video_files E) dirs))), s), st')"
      by (rule mp4_pfp_returns) }
qed

text \<open>
  The hypotheses of C3 hold for a batch of two units of which one succeeds, in each file,
  and for a batch without units.
\<close>

theorem batch_tally_witness:
  "ensure_output_dir (library encoder_writes) (str_of ''out'') fresh
     = Inr (fresh\<lparr>fs := (fs fresh)(str_of ''out'' := Directory (\<lambda>n. None))\<rparr>)
   \<and> fst (bili_process_folders_parallel (library encoder_writes) [str_of ''in'']
            (str_of ''out'') True None fresh) = Inr (2, 1)
   \<and> bili_results (library encoder_writes) (str_of ''out'') True
        [str_of ''in/entry.json'', str_of ''in/s/entry.json'']
        (fresh\<lparr>fs := (fs fresh)(str_of ''out'' := Directory (\<lambda>n. None))\<rparr>) = [True, False]
   \<and> events (snd (bili_process_folders_parallel (library encoder_writes) [str_of ''in'']
            (str_of ''out'') True None fresh)) = [Some True, Some False]
   \<and> fst (mp4_process_folders_parallel (library encoder_writes) [str_of ''in'']
            (str_of ''out'') True None fresh) = Inr (2, 1)
   \<and> mp4_results (library encoder_writes) (str_of ''out'') True
        [str_of ''in/clip.mp4'', str_of ''in/?.mp4'']
        (fresh\<lparr>fs := (fs fresh)(str_of ''out'' := Directory (\<lambda>n. None))\<rparr>) = [True, False]
   \<and> events (snd (mp4_process_folders_parallel (library encoder_writes) [str_of ''in'']
            (str_of ''out'') True None fresh)) = [Some True, None, Some False, None]
   \<and> ensure_output_dir (machine None [] encoder_missing) (str_of ''out'') fresh
       = Inr (fresh\<lparr>fs := (fs fresh)(str_of ''out'' := Directory (\<lambda>n. None))\<rparr>)
   \<and> bili_process_folders_parallel (machine None [] encoder_missing)
          [str_of ''in''] (str_of ''out'') True None fresh
       = (Inr (0, 0), fresh\<lparr>fs := (fs fresh)(str_of ''out'' := Directory (\<lambda>n. None))\<rparr>)
   \<and> mp4_process_folders_parallel (machine None [] encoder_missing)
          [str_of ''in''] (str_of ''out'') True None fresh
       = (Inr (0, 0), fresh\<lparr>fs := (fs fresh)(str_of ''out'' := Directory (\<lambda>n. None))\<rparr>)
   \<and> bili_pool (machine None [] encoder_missing) None = Inr 3
   \<and> (\<exists>s st'. bili_process_folders_parallel (machine None [] encoder_missing)
          [str_of ''in''] (str_of ''out'') True None fresh = (Inr (0, s), st'))"
proof -
  let ?L = "library encoder_writes"
  let ?E0 = "machine None [] encoder_missing"
  let ?st1 = "fresh\<lparr>fs := (fs fresh)(str_of ''out'' := Directory (\<lambda>n. None))\<rparr>"
  have eL: "ensure_output_dir ?L (str_of ''out'') fresh = Inr ?st1"
    by (simp add: ensure_output_dir_def makedirs_def fresh_def machine_def library_def)
  have b: "fst (bili_process_folders_parallel ?L [str_of ''in''] (str_of ''out'') True None
             fresh) = Inr (2, 1)"
    by code_simp
  have m: "fst (mp4_process_folders_parallel ?L [str_of ''in''] (str_of ''out'') True None
             fresh) = Inr (2, 1)"
    by code_simp
  have ubL: "concat (map (find_entry_json_files ?L) [str_of ''in''])
      = [str_of ''in/entry.json'', str_of ''in/s/entry.json'']"
    by code_simp
  have umL: "concat (map (find_video_files ?L) [str_of ''in''])
      = [str_of ''in/clip.mp4'', str_of ''in/?.mp4'']"
    by code_simp
  have rb: "bili_results ?L (str_of ''out'') True
        [str_of ''in/entry.json'', str_of ''in/s/entry.json''] ?st1 = [True, False]"
    by code_simp
  have rm: "mp4_results ?L (str_of ''out'') True
        [str_of ''in/clip.mp4'', str_of ''in/?.mp4''] ?st1 = [True, False]"
    by code_simp
  have e: "ensure_output_dir ?E0 (str_of ''out'') fresh = Inr ?st1"
    by (simp add: ensure_output_dir_def makedirs_def fresh_def machine_def)
  have ub: "concat (map (find_entry_json_files ?E0) [str_of ''in'']) = []"
    and um: "concat (map (find_video_files ?E0) [str_of ''in'']) = []"
    by (simp_all add: find_entry_json_files_def find_video_files_def machine_def)
  have p: "bili_pool ?E0 None = Inr 3"
    by (simp add: bili_pool_def machine_def bili_default_max_workers_def ThreadPoolExecutor_def)
  have f: "events fresh = []" by (simp add: fresh_def)
  note TL = batch_tally [where E = ?L and dirs = "[str_of ''in'']" and out = "str_of ''out''"
      and cb = True and mw = None and st = fresh and tot = 2 and succ = 1 and ?st1.0 = ?st1]
  note T0 = batch_tally [where E = ?E0 and dirs = "[str_of ''in'']" and out = "str_of ''out''"
      and cb = True and mw = None and st = fresh and ?st1.0 = ?st1 and n = 3]
  from TL [THEN conjunct1, THEN mp, OF conjI [OF eL b]]
  have "events (snd (bili_process_folders_parallel ?L [str_of ''in''] (str_of ''out'') True
          None fresh))
      = events fresh @ told True (map Some (bili_results ?L (str_of ''out'') True
          (concat (map (find_entry_json_files ?L) [str_of ''in''])) ?st1))"
    by blast
  then have r1: "events (snd (bili_process_folders_parallel ?L [str_of ''in''] (str_of ''out'')
          True None fresh)) = [Some True, Some False]"
    unfolding ubL rb f by (simp add: told_def)
  from TL [THEN conjunct2, THEN conjunct1, THEN mp, OF conjI [OF eL m]]
  have "events (snd (mp4_process_folders_parallel ?L [str_of ''in''] (str_of ''out'') True
          None fresh))
      = events fresh @ told True (concat (map (\<lambda>b. [Some b, None])
          (mp4_results ?L (str_of ''out'') True
            (concat (map (find_video_files ?L) [str_of ''in''])) ?st1)))"
    by blast
  then have r2: "events (snd (mp4_process_folders_parallel ?L [str_of ''in''] (str_of ''out'')
          True None fresh)) = [Some True, None, Some False, None]"
    unfolding umL rm f by (simp add: told_def)
  note Z = T0 [THEN conjunct2, THEN conjunct2, THEN mp, OF e]
  from Z [THEN conjunct1, THEN mp, OF ub]
  have r3: "bili_process_folders_parallel ?E0 [str_of ''in''] (str_of ''out'') True None fresh
       = (Inr (0, 0), ?st1)" .
  from Z [THEN conjunct2, THEN conjunct1, THEN mp, OF um]
  have r4: "mp4_process_folders_parallel ?E0 [str_of ''in''] (str_of ''out'') True None fresh
       = (Inr (0, 0), ?st1)" .
  from Z p have "\<exists>s st'. bili_process_folders_parallel ?E0 [str_of ''in''] (str_of ''out'') True
         None fresh
       = (Inr (int (length (concat (map (find_entry_json_files ?E0) [str_of ''in'']))), s), st')"
    by blast
  then have r5: "\<exists>s st'. bili_process_folders_parallel ?E0 [str_of ''in''] (str_of ''out'')
         True None fresh = (Inr (0, s), st')"
    unfolding ub by simp
  from eL b rb r1 m rm r2 e r3 r4 p r5 show ?thesis by (intro conjI)
qed

section \<open>What the callback is told\<close>

text \<open>
  C10. With a progress callback supplied, the value \<open>process_single_file\<close> returns is
  the flag the callback was called with during the call: the callback is called once, with
  \<open>True\<close> when the function returns \<open>True\<close> and with \<open>False\<close> when it returns
  \<open>False\<close>.
\<close>

theorem callback_flag_is_result:
  "reported st (bili_process_single_file E json_path output_dir True st)
   \<and> reported st (mp4_process_single_file E video_path output_dir True st)"
  using bili_reported mp4_reported by blast

text \<open>
  C9, amended. With a callback supplied, a task of biliAudioToMp3\_.py calls it exactly once,
  with the boolean result of the unit. A task of mp4Tomp3.py calls it twice: first with
  the boolean result of the unit, then with \<open>None\<close>, which asks the window to refresh.
\<close>

theorem task_wrapper_events:
  "(fst (bili_task_wrapper E out True u (c, st)) = Inr True
     \<and> events (snd (snd (bili_task_wrapper E out True u (c, st)))) = events st @ [Some True]
   \<or> fst (bili_task_wrapper E out True u (c, st)) = Inr False
     \<and> events (snd (snd (bili_task_wrapper E out True u (c, st)))) = events st @ [Some False])
  \<and> (fst (mp4_task_wrapper E out True u (c, st)) = Inr True
     \<and> events (snd (snd (mp4_task_wrapper E out True u (c, st))))
         = events st @ [Some True, None]
   \<or> fst (mp4_task_wrapper E out True u (c, st)) = Inr False
     \<and> events (snd (snd (mp4_task_wrapper E out True u (c, st))))
         = events st @ [Some False, None])"
  using bili_task_reported [of E out u c st] mp4_task_reported [of E out u c st] by (rule conjI)

text \<open>
  C9 as stated fails in mp4Tomp3.py: one task on \<open>in/clip.mp4\<close> leaves two events, the
  second of which is \<open>None\<close>.
\<close>

theorem mp4_task_wrapper_reports_twice:
  "events (snd (snd (mp4_task_wrapper (machine None [] encoder_missing) (str_of ''out'') True
      (str_of ''in/clip.mp4'') (\<lparr>success = 0, processed = 0\<rparr>, fresh))))
   = [Some False, None]"
  by code_simp

section \<open>The audio lookup\<close>

text \<open>
  C5. No well-known audio file lies in the directory of the descriptor, and a file named
  \<open>audio.m4s\<close> lies in the subdirectory \<open>80\<close>, one level down. The walk returns the
  first file with an audio extension, whatever its name: \<open>clip.mp4\<close> next to the
  descriptor in the first directory, and in the second \<open>video.m4s\<close>, which the directory
  scan of \<open>80\<close> lists before \<open>audio.m4s\<close>. The file named \<open>audio.m4s\<close> is not
  preferred.
\<close>

theorem find_audio_file_takes_first_match:
  "find_audio_file
     (machine (titled ''a'')
        [File (str_of ''entry.json''), File (str_of ''clip.mp4''),
         Dir (str_of ''80'') [File (str_of ''audio.m4s'')]]
        encoder_writes)
     (str_of ''in/1'')
   = Some (str_of ''in/1/clip.mp4'')
   \<and> find_audio_file
     (machine (titled ''a'')
        [File (str_of ''entry.json''),
         Dir (str_of ''80'') [File (str_of ''video.m4s''), File (str_of ''audio.m4s'')]]
        encoder_writes)
     (str_of ''in/1'')
   = Some (str_of ''in/1/80/video.m4s'')"
  by code_simp

section \<open>The default pool size\<close>

text \<open>
  C7. With \<open>max_workers = None\<close> on a machine with one logical core, mp4Tomp3.py
  takes a pool of \<open>max(1, 1 - 1) = 1\<close> worker and converts; biliAudioToMp3\_.py takes
  \<open>1 - 1 = 0\<close> workers, and \<open>ThreadPoolExecutor\<close> raises \<open>ValueError\<close>.
\<close>

theorem bili_single_core_pool:
  "bili_default_max_workers (Some 1) = Inr 0
   \<and> mp4_default_max_workers (Some 1) = Inr 1
   \<and> fst (bili_process_folders_parallel
        ((machine (titled ''a'') [File (str_of ''entry.json''), File (str_of ''audio.m4a'')]
            encoder_writes)\<lparr>cpu_count := Some 1\<rparr>)
        [str_of ''in''] (str_of ''out'') True None fresh) = Inl ValueError
   \<and> fst (mp4_process_folders_parallel
        ((machine None [File (str_of ''clip.mp4'')] encoder_writes)\<lparr>cpu_count := Some 1\<rparr>)
        [str_of ''in''] (str_of ''out'') True None fresh) = Inr (1, 1)"
  by code_simp

section \<open>Descriptors without a title\<close>




section \<open>The temporary file of the direct-media converter\<close>

text \<open>
  C8. For every unit of mp4Tomp3.py that reaches the demux stage (its name is usable, the
  output directory is there, the destination is not), whatever the encoder does: when the
  call is over the temporary file is gone, unless its removal failed; in that case the
  failure is recorded and nothing else happens. Whether the removal succeeds never changes
  what the call returns.
\<close>

theorem temp_file_removed:
  assumes "get_video_name v \<noteq> []"
    and "makedirs E out True st = Inr st1"
    and "\<not> exists_nonempty st1 out (get_video_name v @ str_of ''.mp3'')"
  shows "(can_remove E out
            (basename (fst (splitext (join out (get_video_name v @ str_of ''.mp3'')))
                       @ str_of ''_temp.aac'')) \<longrightarrow>
          entry_size (snd (mp4_process_single_file E v out cb st)) out
            (basename (fst (splitext (join out (get_video_name v @ str_of ''.mp3'')))
                       @ str_of ''_temp.aac'')) = None)
       \<and> (entry_size (snd (mp4_process_single_file E v out cb st)) out
            (basename (fst (splitext (join out (get_video_name v @ str_of ''.mp3'')))
                       @ str_of ''_temp.aac'')) \<noteq> None \<longrightarrow>
          fst (splitext (join out (get_video_name v @ str_of ''.mp3''))) @ str_of ''_temp.aac''
            \<in> set (remove_failures (snd (mp4_process_single_file E v out cb st))))
       \<and> fst (mp4_process_single_file (E\<lparr>can_remove := r\<rparr>) v out cb st)
          = fst (mp4_process_single_file E v out cb st)"
proof (cases rule: mp4_cases
    [where E = E and video_path = v and output_dir = out and progress_callback = cb and st = st])
  case no_name
  with assms(1) show ?thesis by simp
next
  case (mkdir_raises e)
  with assms(2) show ?thesis by simp
next
  case (skip s)
  with assms(2,3) show ?thesis by simp
next
  case (demux s b st2)
  from demux(5) show ?thesis
    by (simp add: remove_temp_removes remove_temp_logs mp4_result_without_remove)
qed

text \<open>
  The hypotheses of C8 hold for \<open>in/clip.mp4\<close> with an encoder that demuxes and then
  fails: the temporary file is written, and it is gone after the call; where it cannot be
  removed it stays, the failure is recorded, and the call returns the same.
\<close>

theorem temp_file_removed_witness:
  "get_video_name (str_of ''in/clip.mp4'') \<noteq> []
   \<and> makedirs (machine None [] encoder_demux_only) (str_of ''out'') True fresh
       = Inr (fresh\<lparr>fs := (fs fresh)(str_of ''out'' := Directory (\<lambda>n. None))\<rparr>)
   \<and> \<not> exists_nonempty (fresh\<lparr>fs := (fs fresh)(str_of ''out'' := Directory (\<lambda>n. None))\<rparr>)
         (str_of ''out'') (get_video_name (str_of ''in/clip.mp4'') @ str_of ''.mp3'')
   \<and> entry_size (snd (mp4_process_single_file (machine None [] encoder_demux_only)
         (str_of ''in/clip.mp4'') (str_of ''out'') True fresh)) (str_of ''out'')
         (basename (fst (splitext (join (str_of ''out'')
            (get_video_name (str_of ''in/clip.mp4'') @ str_of ''.mp3''))) @ str_of ''_temp.aac''))
       = None
   \<and> entry_size (snd (mp4_process_single_file
         ((machine None [] encoder_demux_only)\<lparr>can_remove := (\<lambda>d n. False)\<rparr>)
         (str_of ''in/clip.mp4'') (str_of ''out'') True fresh)) (str_of ''out'')
         (basename (fst (splitext (join (str_of ''out'')
            (get_video_name (str_of ''in/clip.mp4'') @ str_of ''.mp3''))) @ str_of ''_temp.aac''))
       \<noteq> None
   \<and> fst (splitext (join (str_of ''out'')
            (get_video_name (str_of ''in/clip.mp4'') @ str_of ''.mp3''))) @ str_of ''_temp.aac''
       \<in> set (remove_failures (snd (mp4_process_single_file
         ((machine None [] encoder_demux_only)\<lparr>can_remove := (\<lambda>d n. False)\<rparr>)
         (str_of ''in/clip.mp4'') (str_of ''out'') True fresh)))
   \<and> fst (mp4_process_single_file
         ((machine None [] encoder_demux_only)\<lparr>can_remove := (\<lambda>d n. False)\<rparr>)
         (str_of ''in/clip.mp4'') (str_of ''out'') True fresh)
       = fst (mp4_process_single_file (machine None [] encoder_demux_only)
         (str_of ''in/clip.mp4'') (str_of ''out'') True fresh)"
proof -
  let ?E = "machine None [] encoder_demux_only"
  let ?F = "?E\<lparr>can_remove := (\<lambda>d n. False)\<rparr>"
  let ?st1 = "fresh\<lparr>fs := (fs fresh)(str_of ''out'' := Directory (\<lambda>n. None))\<rparr>"
  let ?v = "str_of ''in/clip.mp4''"
  let ?t = "fst (splitext (join (str_of ''out'') (get_video_name ?v @ str_of ''.mp3'')))
              @ str_of ''_temp.aac''"
  have h1: "get_video_name ?v \<noteq> []" by code_simp
  have h2: "makedirs ?E (str_of ''out'') True fresh = Inr ?st1"
    by (simp add: makedirs_def machine_def fresh_def)
  have h2': "makedirs ?F (str_of ''out'') True fresh = Inr ?st1"
    by (simp add: makedirs_def machine_def fresh_def)
  have h3: "\<not> exists_nonempty ?st1 (str_of ''out'') (get_video_name ?v @ str_of ''.mp3'')"
    by (simp add: exists_nonempty_def entry_size_def)
  have h4: "can_remove ?E (str_of ''out'') (basename ?t)"
    by (simp add: machine_def)
  have h5: "entry_size (snd (mp4_process_single_file ?F ?v (str_of ''out'') True fresh))
              (str_of ''out'') (basename ?t) \<noteq> None"
    by code_simp
  note TE = temp_file_removed [OF h1 h2 h3, where cb = True and r = "\<lambda>d n. False"]
  note TF = temp_file_removed [OF h1 h2' h3, where cb = True]
  from TE [THEN conjunct1, THEN mp, OF h4]
  have r1: "entry_size (snd (mp4_process_single_file ?E ?v (str_of ''out'') True fresh))
              (str_of ''out'') (basename ?t) = None" .
  from TF [THEN conjunct2, THEN conjunct1, THEN mp, OF h5]
  have r2: "?t \<in> set (remove_failures (snd (mp4_process_single_file ?F ?v (str_of ''out'')
              True fresh)))" .
  from TE [THEN conjunct2, THEN conjunct2]
  have r3: "fst (mp4_process_single_file ?F ?v (str_of ''out'') True fresh)
       = fst (mp4_process_single_file ?E ?v (str_of ''out'') True fresh)" .
  from h1 h2 h3 r1 h5 r2 r3 show ?thesis by (intro conjI)
qed

end
